theory Spec2Isabelle
  imports Complex_Main "HOL-Library.AList" "HOL-Library.Log_Nat"
begin

section \<open>Data model of \<^verbatim>\<open>school_center.py\<close>\<close>

text \<open>
  The rows of \<^verbatim>\<open>schools.tsv\<close> and \<^verbatim>\<open>centers.tsv\<close> are dictionaries with fixed keys;
  they are records here. The fields the program reads through \<^verbatim>\<open>int(...)\<close>
  (\<^verbatim>\<open>count\<close>, \<^verbatim>\<open>capacity\<close>) are integers already; the coordinates stay strings, since the
  program tests their length before converting them.

  Python dictionaries keep insertion order, and an update of a present key keeps its place:
  they are association lists, read with \<open>map_of\<close> and written with \<open>AList.update\<close>.

  A double is the rational number it denotes. The computation of the stretched capacity is
  modelled with its roundings (section on double-precision arithmetic below). The distance
  of a center is whatever double \<^verbatim>\<open>haversine_distance\<close> returns, a number or NaN, and is
  a parameter of the model; the arithmetic of the sort keys is exact.
\<close>

datatype error = TypeError | ValueError | KeyError | IndexError | OverflowError

text \<open>A distance in kilometres as the program holds it: a number, or NaN (\<^verbatim>\<open>float\<close> accepts the
  coordinate \<^verbatim>\<open>'nan'\<close>, and the haversine formula then returns NaN).\<close>

datatype distance = Km rat | NaN

record school =
  scode :: string
  count :: int
  name_address :: string
  lat :: string
  long :: string

record center =
  cscode :: string
  name :: string
  address :: string
  capacity :: int
  clat :: string
  clong :: string

record candidate = center +
  distance_km :: distance

type_synonym prefs = "(string \<times> (string \<times> int) list) list"
type_synonym allocs = "(string \<times> (string \<times> int) list) list"
type_synonym caps = "(string \<times> int) list"
type_synonym used = "(string \<times> candidate) list"

text \<open>The two dictionaries that \<^verbatim>\<open>allocate_to_centers\<close> mutates: the global
  \<^verbatim>\<open>allocations\<close> and its argument \<^verbatim>\<open>remaining_cap\<close>.\<close>

record ledger =
  allocations :: allocs
  remaining_cap :: caps

definition PREF_DISTANCE_THRESHOLD :: rat where
  "PREF_DISTANCE_THRESHOLD = 2"

definition ABS_DISTANCE_THRESHOLD :: rat where
  "ABS_DISTANCE_THRESHOLD = 7"

definition MIN_STUDENT_IN_CENTER :: int where
  "MIN_STUDENT_IN_CENTER = 10"

definition PREF_CUTOFF :: int where
  "PREF_CUTOFF = - 4"

section \<open>Double-precision arithmetic\<close>

text \<open>
  Rounding to the nearest double, ties to even, for a rational of any magnitude:
  \<open>ilog2 x\<close> is the binary exponent of a positive \<open>x\<close> (the largest \<open>e\<close> with
  \<open>2 powi e \<le> x\<close>), \<open>ulp x\<close> the spacing of the
  doubles in the binade of \<open>x\<close> (53 significant bits), and \<open>to_double x\<close> the multiple of
  \<open>ulp x\<close> nearest to \<open>x\<close>. A rounded value whose exponent is 1024 or more is beyond the
  largest double. No value of the computation below is small enough to be subnormal.
\<close>

definition round_half_even :: "rat \<Rightarrow> int" where
  "round_half_even z =
     (let f = \<lfloor>z\<rfloor>; d = z - of_int f
      in if d < 1 / 2 then f else if 1 / 2 < d then f + 1 else if even f then f else f + 1)"

definition ilog2 :: "rat \<Rightarrow> int" where
  "ilog2 x =
     (case quotient_of x of
        (a, b) \<Rightarrow> let e = bitlen a - bitlen b in if 2 powi e \<le> x then e else e - 1)"

definition ulp :: "rat \<Rightarrow> rat" where
  "ulp x = 2 powi (ilog2 \<bar>x\<bar> - 52)"

definition to_double :: "rat \<Rightarrow> rat" where
  "to_double x = (if x = 0 then 0 else of_int (round_half_even (x / ulp x)) * ulp x)"

definition overflows :: "rat \<Rightarrow> bool" where
  "overflows x \<longleftrightarrow> x \<noteq> 0 \<and> 1024 \<le> ilog2 \<bar>x\<bar>"

text \<open>The conversion of a Python integer to a double, as \<^verbatim>\<open>int * float\<close> and
  \<^verbatim>\<open>float + int\<close> perform it: \<^verbatim>\<open>OverflowError\<close> when the rounded value is beyond the
  largest double.\<close>

definition int_to_double :: "int \<Rightarrow> error + rat" where
  "int_to_double n =
     (let x = to_double (of_int n) in if overflows x then Inl OverflowError else Inr x)"

text \<open>The literal \<^verbatim>\<open>0.02\<close> is the double nearest to \<open>2 / 100\<close>.\<close>

definition STRETCH_CAPACITY_FACTOR :: rat where
  "STRETCH_CAPACITY_FACTOR = to_double (2 / 100)"

section \<open>Preference lookup and the per-center cap\<close>

text \<open>\<^verbatim>\<open>get_pref\<close>: a missing school, a missing center and a stored \<open>0\<close> (falsy) all give \<open>0\<close>.\<close>

definition get_pref :: "prefs \<Rightarrow> string \<Rightarrow> string \<Rightarrow> int" where
  "get_pref prefs sc cc =
     (case map_of prefs sc of
        None \<Rightarrow> 0
      | Some inner \<Rightarrow>
          (if inner = [] then 0
           else (case map_of inner cc of
                   None \<Rightarrow> 0
                 | Some v \<Rightarrow> (if v = 0 then 0 else v))))"

definition calc_per_center :: "int \<Rightarrow> int" where
  "calc_per_center n = (if n \<le> 400 then 100 else 200)"

section \<open>The allocation record\<close>

definition allocate :: "string \<Rightarrow> string \<Rightarrow> int \<Rightarrow> allocs \<Rightarrow> allocs" where
  "allocate sc cc n al =
     (case map_of al sc of
        None \<Rightarrow> AList.update sc [(cc, n)] al
      | Some inner \<Rightarrow>
          (case map_of inner cc of
             None \<Rightarrow> AList.update sc (AList.update cc n inner) al
           | Some v \<Rightarrow> AList.update sc (AList.update cc (v + n) inner) al))"

definition is_allocated :: "string \<Rightarrow> string \<Rightarrow> allocs \<Rightarrow> bool" where
  "is_allocated scode1 scode2 al =
     (case map_of al scode1 of
        None \<Rightarrow> False
      | Some inner \<Rightarrow> map_of inner scode2 \<noteq> None)"

section \<open>\<^verbatim>\<open>allocate_to_centers\<close>\<close>

text \<open>
  \<^verbatim>\<open>math.floor(int(center['capacity']) * STRETCH_CAPACITY_FACTOR + centers_cap_left)\<close>: the
  capacity is converted to a double and multiplied by the factor (the product is rounded;
  the factor is below 1, so the product is no larger than the capacity), the remaining capacity is converted
  and added (the sum is rounded; \<^verbatim>\<open>math.floor\<close> raises \<^verbatim>\<open>OverflowError\<close> on an infinite
  sum), and the floor of a finite double is exact.
\<close>

definition stretched_capacity :: "int \<Rightarrow> int \<Rightarrow> error + int" where
  "stretched_capacity cap cap_left =
     (case int_to_double cap of
        Inl e \<Rightarrow> Inl e
      | Inr a \<Rightarrow>
          (case int_to_double cap_left of
             Inl e \<Rightarrow> Inl e
           | Inr b \<Rightarrow>
               let sum = to_double (to_double (a * STRETCH_CAPACITY_FACTOR) + b)
               in if overflows sum then Inl OverflowError else Inr \<lfloor>sum\<rfloor>))"

text \<open>
  One iteration of the loop over \<^verbatim>\<open>centers\<close>. The loop variables are \<^verbatim>\<open>to_allot\<close>,
  \<^verbatim>\<open>allocated_centers\<close> and the two dictionaries. \<^verbatim>\<open>remaining_cap[center_code]\<close> raises
  \<^verbatim>\<open>KeyError\<close> on a missing code. The guard calls \<^verbatim>\<open>is_allocated(center_code, school_code)\<close>,
  in this order. \<^verbatim>\<open>centers_cap_left\<close> is the remaining capacity, replaced by the stretched
  capacity in a stretch call; the decrement at the end is of the remaining capacity itself.
  The rows written to the diagnostic file are not part of the model.
\<close>

definition allot_step ::
  "bool \<Rightarrow> int \<Rightarrow> candidate list \<Rightarrow> school \<Rightarrow> candidate \<Rightarrow>
   int \<times> used \<times> ledger \<Rightarrow> error + (int \<times> used \<times> ledger)" where
  "allot_step stretch per_center centers s c acc =
     (case acc of (to_allot, allocated_centers, L) \<Rightarrow>
        if is_allocated (cscode c) (scode s) (allocations L) then Inr acc
        else
          (case map_of (remaining_cap L) (cscode c) of
             None \<Rightarrow> Inl KeyError
           | Some cap0 \<Rightarrow>
               (case (if stretch then stretched_capacity (capacity c) cap0 else Inr cap0) of
                  Inl e \<Rightarrow> Inl e
                | Inr centers_cap_left \<Rightarrow>
                    let next_allot =
                          (if stretch
                           then min to_allot (max centers_cap_left MIN_STUDENT_IN_CENTER)
                           else min to_allot
                                  (min per_center (max centers_cap_left MIN_STUDENT_IN_CENTER)))
                    in
                      if 0 < to_allot \<and> 0 < next_allot \<and> next_allot \<le> centers_cap_left then
                        (if next_allot < MIN_STUDENT_IN_CENTER \<and> 0 < length allocated_centers
                         then
                           (case centers of
                              [] \<Rightarrow> Inl IndexError
                            | c0 # _ \<Rightarrow>
                                Inr (to_allot - next_allot, allocated_centers,
                                     L\<lparr>allocations :=
                                         allocate (scode s) (cscode c0) next_allot
                                           (allocations L),
                                       remaining_cap :=
                                         AList.update (cscode c) (cap0 - next_allot)
                                           (remaining_cap L)\<rparr>))
                         else
                           Inr (to_allot - next_allot,
                                AList.update (cscode c) c allocated_centers,
                                L\<lparr>allocations :=
                                    allocate (scode s) (cscode c) next_allot (allocations L),
                                  remaining_cap :=
                                    AList.update (cscode c) (cap0 - next_allot)
                                      (remaining_cap L)\<rparr>))
                      else Inr acc)))"

fun allot_loop ::
  "bool \<Rightarrow> int \<Rightarrow> candidate list \<Rightarrow> school \<Rightarrow> candidate list \<Rightarrow>
   int \<times> used \<times> ledger \<Rightarrow> error + (int \<times> used \<times> ledger)" where
  "allot_loop stretch per_center centers s [] acc = Inr acc"
| "allot_loop stretch per_center centers s (c # cs) acc =
     (case allot_step stretch per_center centers s c acc of
        Inl e \<Rightarrow> Inl e
      | Inr acc' \<Rightarrow> allot_loop stretch per_center centers s cs acc')"

definition allocate_to_centers ::
  "candidate list \<Rightarrow> school \<Rightarrow> int \<Rightarrow> ledger \<Rightarrow> bool \<Rightarrow> error + (int \<times> used \<times> ledger)" where
  "allocate_to_centers centers s to_allot L stretch =
     allot_loop stretch (calc_per_center to_allot) centers s centers (to_allot, [], L)"

section \<open>Candidate selection: \<^verbatim>\<open>centers_within_distance\<close>\<close>

text \<open>
  \<open>geo slat slong clat clong\<close> stands for
  \<^verbatim>\<open>haversine_distance(float(slat), float(slong), float(clat), float(clong))\<close>: \<open>None\<close>
  where the computation raises \<^verbatim>\<open>ValueError\<close> (a coordinate that is not a number, an
  infinite one), otherwise the double it returns, a number or NaN. The seeded generator is
  the sequence \<open>rs\<close> of its \<^verbatim>\<open>random()\<close> outputs together with the number of outputs drawn
  so far; \<^verbatim>\<open>uniform(a, b)\<close> is \<^verbatim>\<open>a + (b - a) * random()\<close>.
\<close>

type_synonym geo = "string \<Rightarrow> string \<Rightarrow> string \<Rightarrow> string \<Rightarrow> distance option"

definition uniform :: "(nat \<Rightarrow> rat) \<Rightarrow> nat \<Rightarrow> rat \<Rightarrow> rat \<Rightarrow> rat" where
  "uniform rs i a b = a + (b - a) * rs i"

definition center_to_dict :: "center \<Rightarrow> distance \<Rightarrow> candidate" where
  "center_to_dict c distance =
     \<lparr>cscode = cscode c, name = name c, address = address c, capacity = capacity c,
      clat = clat c, clong = clong c, distance_km = distance\<rparr>"

text \<open>\<^verbatim>\<open>distance < nearest_distance\<close>: false when either side is NaN.\<close>

definition distance_less :: "distance \<Rightarrow> distance \<Rightarrow> bool" where
  "distance_less x y = (case x of Km a \<Rightarrow> (case y of Km b \<Rightarrow> a < b | NaN \<Rightarrow> False) | NaN \<Rightarrow> False)"

text \<open>The nested \<^verbatim>\<open>sort_key\<close>; \<open>i\<close> is the index of the random output it draws and \<open>d\<close> the
  number that \<^verbatim>\<open>c['distance_km']\<close> is: a center in \<^verbatim>\<open>within_distance\<close> has passed
  \<^verbatim>\<open>distance <= distance_threshold\<close>, which NaN fails.\<close>

definition center_sort_key ::
  "prefs \<Rightarrow> (nat \<Rightarrow> rat) \<Rightarrow> school \<Rightarrow> nat \<Rightarrow> rat \<Rightarrow> candidate \<Rightarrow> rat" where
  "center_sort_key prefs rs s i d c =
     d * uniform rs i 1 5 - of_int (get_pref prefs (scode s) (cscode c) * 100)"

text \<open>\<^verbatim>\<open>sorted(within_distance, key=sort_key)\<close>: one key per element, drawn in list order,
  then a stable sort on the keys. The list holds each candidate with the number its
  distance is.\<close>

definition sorted_centers ::
  "prefs \<Rightarrow> (nat \<Rightarrow> rat) \<Rightarrow> nat \<Rightarrow> school \<Rightarrow> (rat \<times> candidate) list \<Rightarrow> candidate list" where
  "sorted_centers prefs rs p s within_distance =
     map snd (sort_key fst
       (map (\<lambda>(i, d, c). (center_sort_key prefs rs s i d c, c)) (enumerate p within_distance)))"

text \<open>The \<^verbatim>\<open>for c in centers\<close> loop; its variables are the nearest center with its distance
  (\<open>None\<close> at the start) and \<^verbatim>\<open>within_distance\<close>. The distance is computed before the
  own-code test. The first center of another code becomes the nearest whatever its distance;
  a NaN distance neither replaces a nearest center nor is replaced.\<close>

fun scan_centers ::
  "geo \<Rightarrow> prefs \<Rightarrow> school \<Rightarrow> rat \<Rightarrow> center list \<Rightarrow>
   (center \<times> distance) option \<Rightarrow> (rat \<times> candidate) list \<Rightarrow>
   error + ((center \<times> distance) option \<times> (rat \<times> candidate) list)" where
  "scan_centers geo prefs s thr [] nearest within_distance = Inr (nearest, within_distance)"
| "scan_centers geo prefs s thr (c # cs) nearest within_distance =
     (case geo (lat s) (long s) (clat c) (clong c) of
        None \<Rightarrow> Inl ValueError
      | Some distance \<Rightarrow>
          if scode s = cscode c then scan_centers geo prefs s thr cs nearest within_distance
          else
            scan_centers geo prefs s thr cs
              (case nearest of
                 None \<Rightarrow> Some (c, distance)
               | Some (nc, nd) \<Rightarrow>
                   if distance_less distance nd then Some (c, distance) else nearest)
              (case distance of
                 Km d \<Rightarrow>
                   if d \<le> thr \<and> PREF_CUTOFF < get_pref prefs (scode s) (cscode c)
                   then within_distance @ [(d, center_to_dict c distance)]
                   else within_distance
               | NaN \<Rightarrow> within_distance))"

text \<open>The result is the candidate list and the new count of random outputs drawn.
  With no center of another code, \<^verbatim>\<open>center_to_dict(None, None)\<close> raises \<^verbatim>\<open>TypeError\<close>.\<close>

definition centers_within_distance ::
  "geo \<Rightarrow> prefs \<Rightarrow> (nat \<Rightarrow> rat) \<Rightarrow> nat \<Rightarrow> school \<Rightarrow> center list \<Rightarrow> rat \<Rightarrow>
   error + (candidate list \<times> nat)" where
  "centers_within_distance geo prefs rs p s centers distance_threshold =
     (if length (lat s) = 0 \<or> length (long s) = 0 then Inr ([], p)
      else
        (case scan_centers geo prefs s distance_threshold centers None [] of
           Inl e \<Rightarrow> Inl e
         | Inr (nearest, within_distance) \<Rightarrow>
             if 0 < length within_distance
             then Inr (sorted_centers prefs rs p s within_distance, p + length within_distance)
             else (case nearest of
                     None \<Rightarrow> Inl TypeError
                   | Some (nc, nd) \<Rightarrow> Inr ([center_to_dict nc nd], p))))"

section \<open>The main loop\<close>

type_synonym row = "string \<times> string \<times> string \<times> string \<times> string \<times> int \<times> distance"

text \<open>The state of a run: the two dictionaries, the count \<^verbatim>\<open>remaining\<close> of students not
  allocated, the rows written to the allocation file, and the number of random outputs
  drawn. The log lines are not part of the model.\<close>

record run_state =
  led :: ledger
  remaining :: int
  rows :: "row list"
  pos :: nat

text \<open>\<^verbatim>\<open>for c in allocated_centers.values(): allocation_file.writerow(...)\<close>.\<close>

fun allocation_rows :: "school \<Rightarrow> allocs \<Rightarrow> candidate list \<Rightarrow> error + row list" where
  "allocation_rows s al [] = Inr []"
| "allocation_rows s al (c # cs) =
     (case map_of al (scode s) of
        None \<Rightarrow> Inl KeyError
      | Some inner \<Rightarrow>
          (case map_of inner (cscode c) of
             None \<Rightarrow> Inl KeyError
           | Some n \<Rightarrow>
               (case allocation_rows s al cs of
                  Inl e \<Rightarrow> Inl e
                | Inr rest \<Rightarrow>
                    Inr ((scode s, name_address s, cscode c, name c, address c, n,
                          distance_km c) # rest))))"

text \<open>
  The body of \<^verbatim>\<open>for s in schools\<close>. The second call passes \<^verbatim>\<open>stretch_capacity=True\<close>, a
  keyword that \<^verbatim>\<open>allocate_to_centers\<close> does not have (its parameter is \<^verbatim>\<open>stretch\<close>):
  Python evaluates the arguments, then raises \<^verbatim>\<open>TypeError\<close> before the body runs.
\<close>

definition process_school ::
  "geo \<Rightarrow> prefs \<Rightarrow> (nat \<Rightarrow> rat) \<Rightarrow> center list \<Rightarrow> school \<Rightarrow> run_state \<Rightarrow> error + run_state" where
  "process_school geo prefs rs centers s st =
     (case centers_within_distance geo prefs rs (pos st) s centers PREF_DISTANCE_THRESHOLD of
        Inl e \<Rightarrow> Inl e
      | Inr (centers_for_school, p1) \<Rightarrow>
          (case allocate_to_centers centers_for_school s (count s) (led st) False of
             Inl e \<Rightarrow> Inl e
           | Inr (to_allot1, allocated1, L1) \<Rightarrow>
               (case (if 0 < to_allot1 then
                        (case centers_within_distance geo prefs rs p1 s centers
                                ABS_DISTANCE_THRESHOLD of
                           Inl e \<Rightarrow> Inl e
                         | Inr (expanded_centers, p2) \<Rightarrow> Inl TypeError)
                      else Inr (to_allot1, allocated1, L1, p1)) of
                  Inl e \<Rightarrow> Inl e
                | Inr (to_allot, allocated_centers, L, p) \<Rightarrow>
                    (case allocation_rows s (allocations L) (map snd allocated_centers) of
                       Inl e \<Rightarrow> Inl e
                     | Inr new_rows \<Rightarrow>
                         Inr \<lparr>led = L,
                              remaining =
                                (if 0 < to_allot then remaining st + to_allot else remaining st),
                              rows = rows st @ new_rows,
                              pos = p\<rparr>))))"

fun main_loop ::
  "geo \<Rightarrow> prefs \<Rightarrow> (nat \<Rightarrow> rat) \<Rightarrow> center list \<Rightarrow> school list \<Rightarrow> run_state \<Rightarrow>
   error + run_state" where
  "main_loop geo prefs rs centers [] st = Inr st"
| "main_loop geo prefs rs centers (s # ss) st =
     (case process_school geo prefs rs centers s st of
        Inl e \<Rightarrow> Inl e
      | Inr st' \<Rightarrow> main_loop geo prefs rs centers ss st')"

text \<open>\<^verbatim>\<open>school_sort_key\<close> and the set-up of a run: the schools are sorted on keys drawn in
  input order, \<^verbatim>\<open>centers_remaining_cap\<close> is built by a dictionary comprehension (a later
  center with the same code overwrites the value), \<^verbatim>\<open>allocations\<close> starts empty.\<close>

definition school_sort_key :: "(nat \<Rightarrow> rat) \<Rightarrow> nat \<Rightarrow> school \<Rightarrow> rat" where
  "school_sort_key rs i s = (if 500 < count s then - 1 else 1) * uniform rs i 1 100"

definition sorted_schools :: "(nat \<Rightarrow> rat) \<Rightarrow> school list \<Rightarrow> school list" where
  "sorted_schools rs schools =
     map snd (sort_key fst
       (map (\<lambda>(i, s). (school_sort_key rs i s, s)) (enumerate 0 schools)))"

definition initial_caps :: "center list \<Rightarrow> caps" where
  "initial_caps centers = fold (\<lambda>c m. AList.update (cscode c) (capacity c) m) centers []"

definition initial_state :: "school list \<Rightarrow> center list \<Rightarrow> run_state" where
  "initial_state schools centers =
     \<lparr>led = \<lparr>allocations = [], remaining_cap = initial_caps centers\<rparr>,
      remaining = 0, rows = [], pos = length schools\<rparr>"

definition run ::
  "geo \<Rightarrow> prefs \<Rightarrow> (nat \<Rightarrow> rat) \<Rightarrow> school list \<Rightarrow> center list \<Rightarrow> error + run_state" where
  "run geo prefs rs schools centers =
     main_loop geo prefs rs centers (sorted_schools rs schools) (initial_state schools centers)"

section \<open>Notions used in the statements\<close>

text \<open>The amount recorded for a (school, center) pair, the sum recorded for a school over
  all its centers, and the sum recorded against a center over all schools.\<close>

definition alloc_of :: "allocs \<Rightarrow> string \<Rightarrow> string \<Rightarrow> int option" where
  "alloc_of al sc cc = (case map_of al sc of None \<Rightarrow> None | Some inner \<Rightarrow> map_of inner cc)"

text \<open>The amount \<^verbatim>\<open>next_allot\<close>, the capacity it is tested against and the admission test
  of one loop iteration, as functions of the loop variables.\<close>

definition next_amount :: "bool \<Rightarrow> int \<Rightarrow> int \<Rightarrow> int \<Rightarrow> int" where
  "next_amount stretch pc n cl =
     (if stretch then min n (max cl MIN_STUDENT_IN_CENTER)
      else min n (min pc (max cl MIN_STUDENT_IN_CENTER)))"

definition cap_limit :: "bool \<Rightarrow> int \<Rightarrow> int \<Rightarrow> error + int" where
  "cap_limit stretch cap cap0 = (if stretch then stretched_capacity cap cap0 else Inr cap0)"

definition admitted :: "bool \<Rightarrow> int \<Rightarrow> int \<Rightarrow> int \<Rightarrow> bool" where
  "admitted stretch pc n cl \<longleftrightarrow>
     0 < n \<and> 0 < next_amount stretch pc n cl \<and> next_amount stretch pc n cl \<le> cl"

definition school_total :: "allocs \<Rightarrow> string \<Rightarrow> int" where
  "school_total al sc =
     (case map_of al sc of None \<Rightarrow> 0 | Some inner \<Rightarrow> sum_list (map snd inner))"

definition allocated_to :: "allocs \<Rightarrow> string \<Rightarrow> int" where
  "allocated_to al k =
     sum_list (map (\<lambda>(sc, inner). case map_of inner k of None \<Rightarrow> 0 | Some v \<Rightarrow> v) al)"

text \<open>The remaining capacity of a center code in the ledger (\<open>0\<close> for an unknown code).\<close>

definition remaining_of :: "ledger \<Rightarrow> string \<Rightarrow> int" where
  "remaining_of L k = (case map_of (remaining_cap L) k of None \<Rightarrow> 0 | Some v \<Rightarrow> v)"

text \<open>\<open>floor(capacity * 0.02)\<close> in exact arithmetic, the excess that the stretch pass is
  meant to allow.\<close>

definition stretch_allowance :: "int \<Rightarrow> int" where
  "stretch_allowance cap = \<lfloor>of_int cap * (2 / 100 :: rat)\<rfloor>"

text \<open>The distance of a center from a school, and the test of the loop in
  \<^verbatim>\<open>centers_within_distance\<close> for adding a center to \<^verbatim>\<open>within_distance\<close>.\<close>

definition dist_to :: "geo \<Rightarrow> school \<Rightarrow> center \<Rightarrow> distance option" where
  "dist_to geo s c = geo (lat s) (long s) (clat c) (clong c)"

definition qualifies :: "geo \<Rightarrow> prefs \<Rightarrow> school \<Rightarrow> rat \<Rightarrow> center \<Rightarrow> bool" where
  "qualifies geo prefs s thr c \<longleftrightarrow>
     cscode c \<noteq> scode s
     \<and> (case dist_to geo s c of
          Some (Km d) \<Rightarrow> d \<le> thr \<and> PREF_CUTOFF < get_pref prefs (scode s) (cscode c)
        | _ \<Rightarrow> False)"

section \<open>Example inputs\<close>

text \<open>Inputs for the concrete evaluations: distances are read from a table on the center's
  latitude string (a school without coordinates has no distance, a center with latitude
  \<^verbatim>\<open>'nan'\<close> has the distance NaN), the generator always returns \<open>0\<close>, so that
  \<^verbatim>\<open>uniform(a, b)\<close> is \<open>a\<close> and ties keep input order.\<close>

definition ex_geo :: geo where
  "ex_geo la lo la' lo' =
     (if la = [] \<or> lo = [] then None
      else if la' = ''nan'' then Some NaN
      else map_option Km
             (map_of [(''27.70'', 1), (''27.71'', 3 / 2), (''27.80'', 9), (''27.68'', 1)] la'))"

definition ex_rs :: "nat \<Rightarrow> rat" where
  "ex_rs i = 0"

definition ex_school :: "string \<Rightarrow> int \<Rightarrow> string \<Rightarrow> school" where
  "ex_school code n slat =
     \<lparr>scode = code, count = n, name_address = ''school'', lat = slat, long = ''85.30''\<rparr>"

definition ex_center :: "string \<Rightarrow> int \<Rightarrow> string \<Rightarrow> center" where
  "ex_center code cap la =
     \<lparr>cscode = code, name = ''center'', address = ''street'', capacity = cap,
      clat = la, clong = ''85.30''\<rparr>"

definition ex_prefs :: prefs where
  "ex_prefs = [(''S1'', [(''A'', 3)]), (''S2'', [(''A'', 3), (''B'', 2), (''C'', 1)])]"

section \<open>Rounding: bounds, and exactness at ordinary magnitudes\<close>

lemma ilog2_bounds:
  assumes "0 < x"
  shows "2 powi ilog2 x \<le> x \<and> x < 2 powi (ilog2 x + 1)"
proof -
  obtain a b where q: "quotient_of x = (a, b)" by (cases "quotient_of x")
  from quotient_of_denom_pos [OF q] have b: "0 < b" .
  from quotient_of_div [OF q] have x: "x = of_int a / of_int b" .
  from assms x b have a: "0 < a" by (simp add: zero_less_divide_iff)
  let ?A = "bitlen a" and ?B = "bitlen b"
  from bitlen_bounds [OF a] have a1: "2 ^ nat (?A - 1) \<le> a" and a2: "a < 2 ^ nat ?A" by simp_all
  from bitlen_bounds [OF b] have b1: "2 ^ nat (?B - 1) \<le> b" and b2: "b < 2 ^ nat ?B" by simp_all
  have A: "1 \<le> ?A" using a bitlen_eq_zero_iff [of a] bitlen_nonneg [of a] by linarith
  have B: "1 \<le> ?B" using b bitlen_eq_zero_iff [of b] bitlen_nonneg [of b] by linarith
  have ra1: "(2::rat) powi (?A - 1) \<le> of_int a"
  proof -
    have "(2::rat) powi (?A - 1) = 2 ^ nat (?A - 1)" using A by (simp add: power_int_nonneg_exp)
    also have "\<dots> = of_int (2 ^ nat (?A - 1))" by simp
    also have "\<dots> \<le> of_int a" using a1 by (simp only: of_int_le_iff)
    finally show ?thesis .
  qed
  have ra2: "of_int a < (2::rat) powi ?A"
  proof -
    have "(of_int a :: rat) < of_int (2 ^ nat ?A)" using a2 by (simp only: of_int_less_iff)
    also have "\<dots> = 2 ^ nat ?A" by simp
    also have "\<dots> = 2 powi ?A" using A by (simp add: power_int_nonneg_exp)
    finally show ?thesis .
  qed
  have rb1: "(2::rat) powi (?B - 1) \<le> of_int b"
  proof -
    have "(2::rat) powi (?B - 1) = 2 ^ nat (?B - 1)" using B by (simp add: power_int_nonneg_exp)
    also have "\<dots> = of_int (2 ^ nat (?B - 1))" by simp
    also have "\<dots> \<le> of_int b" using b1 by (simp only: of_int_le_iff)
    finally show ?thesis .
  qed
  have rb2: "of_int b < (2::rat) powi ?B"
  proof -
    have "(of_int b :: rat) < of_int (2 ^ nat ?B)" using b2 by (simp only: of_int_less_iff)
    also have "\<dots> = 2 ^ nat ?B" by simp
    also have "\<dots> = 2 powi ?B" using B by (simp add: power_int_nonneg_exp)
    finally show ?thesis .
  qed
  have bpos: "(0::rat) < of_int b" using b by simp
  have apos: "(0::rat) < of_int a" using a by simp
  \<comment> \<open>\<open>2 ^ (A - 1 - B) < x < 2 ^ (A - B + 1)\<close>\<close>
  have low: "(2::rat) powi (?A - ?B - 1) \<le> x"
  proof -
    have "(2::rat) powi (?A - ?B - 1) = 2 powi (?A - 1) / 2 powi ?B"
      using power_int_diff [of "2::rat" "?A - 1" ?B] by (simp add: algebra_simps)
    also have "\<dots> \<le> of_int a / 2 powi ?B"
      using ra1 by (simp add: divide_right_mono)
    also have "\<dots> \<le> of_int a / of_int b"
      using rb2 bpos apos by (simp add: frac_le)
    finally show ?thesis by (simp add: x)
  qed
  have up: "x < (2::rat) powi (?A - ?B + 1)"
  proof -
    have "x = of_int a / of_int b" by (rule x)
    also have "\<dots> < 2 powi ?A / of_int b"
      using ra2 bpos by (simp add: divide_strict_right_mono)
    also have "\<dots> \<le> 2 powi ?A / 2 powi (?B - 1)"
      using rb1 bpos by (intro divide_left_mono) (simp_all add: mult_pos_pos)
    also have "\<dots> = 2 powi (?A - ?B + 1)"
      using power_int_diff [of "2::rat" ?A "?B - 1"] by (simp add: algebra_simps)
    finally show ?thesis .
  qed
  show ?thesis
  proof (cases "(2::rat) powi (?A - ?B) \<le> x")
    case True
    then have "ilog2 x = ?A - ?B" by (simp add: ilog2_def q)
    with True up show ?thesis by simp
  next
    case False
    then have e: "ilog2 x = ?A - ?B - 1" by (simp add: ilog2_def q)
    from False have "x < 2 powi (?A - ?B)" by simp
    with low e show ?thesis by simp
  qed
qed

lemma ilog2_less:
  assumes "0 < x" and "x < 2 powi k"
  shows "ilog2 x < k"
proof (rule ccontr)
  assume "\<not> ilog2 x < k"
  then have "k \<le> ilog2 x" by simp
  then have "(2::rat) powi k \<le> 2 powi ilog2 x" by (intro power_int_increasing) simp_all
  with ilog2_bounds [OF assms(1)] assms(2) show False by simp
qed

lemma round_half_even_cases:
  obtains "round_half_even z = \<lfloor>z\<rfloor>" "z - of_int \<lfloor>z\<rfloor> \<le> 1 / 2"
  | "round_half_even z = \<lfloor>z\<rfloor> + 1" "1 / 2 \<le> z - of_int \<lfloor>z\<rfloor>"
  unfolding round_half_even_def Let_def
  by (cases "z - of_int \<lfloor>z\<rfloor> < 1 / 2"; cases "1 / 2 < z - of_int \<lfloor>z\<rfloor>";
      cases "even \<lfloor>z\<rfloor>") (simp_all add: not_less)

lemma round_half_even_bounds:
  "of_int (round_half_even z) \<le> z + 1 / 2 \<and> z - 1 / 2 \<le> of_int (round_half_even z)"
proof -
  have f: "of_int \<lfloor>z\<rfloor> \<le> z" "z < of_int \<lfloor>z\<rfloor> + 1" by linarith+
  show ?thesis
  proof (cases z rule: round_half_even_cases)
    case 1
    then have "(of_int (round_half_even z) :: rat) = of_int \<lfloor>z\<rfloor>" by simp
    with f 1(2) show ?thesis by linarith
  next
    case 2
    then have "(of_int (round_half_even z) :: rat) = of_int \<lfloor>z\<rfloor> + 1" by simp
    with f 2(2) show ?thesis by linarith
  qed
qed

lemma round_half_even_ge: "of_int m \<le> z \<Longrightarrow> m \<le> round_half_even z"
proof -
  assume "of_int m \<le> z"
  then have "m \<le> \<lfloor>z\<rfloor>" by (simp add: le_floor_iff)
  then show ?thesis by (cases z rule: round_half_even_cases) simp_all
qed

lemma round_half_even_le: "z \<le> of_int m \<Longrightarrow> round_half_even z \<le> m"
proof -
  assume le: "z \<le> of_int m"
  show ?thesis
  proof (cases "z = of_int m")
    case True
    then show ?thesis by (simp add: round_half_even_def Let_def)
  next
    case False
    with le have "z < of_int m" by simp
    then have "\<lfloor>z\<rfloor> < m" by (simp add: floor_less_iff)
    then show ?thesis by (cases z rule: round_half_even_cases) simp_all
  qed
qed

lemma ulp_pos: "0 < ulp x"
  by (simp add: ulp_def)

lemma ulp_le: "x \<noteq> 0 \<Longrightarrow> ulp x \<le> \<bar>x\<bar> / 2 ^ 52"
proof -
  assume "x \<noteq> 0"
  then have pos: "0 < \<bar>x\<bar>" by simp
  have "ulp x = 2 powi ilog2 \<bar>x\<bar> / 2 powi 52"
    unfolding ulp_def by (rule power_int_diff) simp
  also have "\<dots> = 2 powi ilog2 \<bar>x\<bar> / 2 ^ 52" by simp
  also have "\<dots> \<le> \<bar>x\<bar> / 2 ^ 52"
    using ilog2_bounds [OF pos] by (simp add: divide_right_mono)
  finally show ?thesis .
qed

lemma to_double_error: "\<bar>to_double x - x\<bar> \<le> \<bar>x\<bar> / 2 ^ 53"
proof (cases "x = 0")
  case True
  then show ?thesis by (simp add: to_double_def)
next
  case False
  let ?u = "ulp x" and ?m = "x / ulp x"
  have u: "0 < ?u" by (rule ulp_pos)
  have "to_double x - x = (of_int (round_half_even ?m) - ?m) * ?u"
    using False u by (simp add: to_double_def algebra_simps)
  then have "\<bar>to_double x - x\<bar> = \<bar>of_int (round_half_even ?m) - ?m\<bar> * ?u"
    using u by (simp add: abs_mult)
  also have "\<dots> \<le> (1 / 2) * ?u"
  proof -
    have "\<bar>of_int (round_half_even ?m) - ?m\<bar> \<le> 1 / 2"
      using round_half_even_bounds [of ?m] by linarith
    with u show ?thesis by (intro mult_right_mono) simp_all
  qed
  also have "\<dots> \<le> (1 / 2) * (\<bar>x\<bar> / 2 ^ 52)"
    using ulp_le [OF False] by simp
  also have "\<dots> = \<bar>x\<bar> / 2 ^ 53" by simp
  finally show ?thesis .
qed

lemma ulp_small:
  assumes "x \<noteq> 0" and "\<bar>x\<bar> < 2 ^ 53"
  shows "\<exists>k::nat. ulp x = 1 / 2 ^ k"
proof -
  from assms(1) have pos: "0 < \<bar>x\<bar>" by simp
  have "\<bar>x\<bar> < 2 powi 53" using assms(2) by simp
  from ilog2_less [OF pos this] have e: "ilog2 \<bar>x\<bar> - 52 \<le> 0" by simp
  have "ulp x = 2 powi (- (52 - ilog2 \<bar>x\<bar>))" by (simp add: ulp_def)
  also have "\<dots> = 1 / 2 powi (52 - ilog2 \<bar>x\<bar>)" by (simp only: power_int_minus_divide)
  also have "\<dots> = 1 / 2 ^ nat (52 - ilog2 \<bar>x\<bar>)" using e by (simp add: power_int_nonneg_exp)
  finally show ?thesis by blast
qed

lemma to_double_ge_int:
  assumes "\<bar>x\<bar> < 2 ^ 53" and "of_int N \<le> x"
  shows "of_int N \<le> to_double x"
proof (cases "x = 0")
  case True
  with assms(2) show ?thesis by (simp add: to_double_def)
next
  case False
  from ulp_small [OF False assms(1)] obtain k :: nat where u: "ulp x = 1 / 2 ^ k" ..
  have "of_int (N * 2 ^ k) \<le> x / ulp x" using assms(2) by (simp add: u)
  then have "N * 2 ^ k \<le> round_half_even (x / ulp x)" by (rule round_half_even_ge)
  then have "(of_int (N * 2 ^ k) :: rat) \<le> of_int (round_half_even (x / ulp x))"
    by (simp only: of_int_le_iff)
  then have "of_int N * 2 ^ k \<le> (of_int (round_half_even (x / ulp x)) :: rat)" by simp
  then have "of_int N \<le> (of_int (round_half_even (x / ulp x)) :: rat) / 2 ^ k"
    by (simp add: pos_le_divide_eq)
  with False show ?thesis by (simp add: to_double_def u)
qed

lemma to_double_le_int:
  assumes "\<bar>x\<bar> < 2 ^ 53" and "x \<le> of_int N"
  shows "to_double x \<le> of_int N"
proof (cases "x = 0")
  case True
  with assms(2) show ?thesis by (simp add: to_double_def)
next
  case False
  from ulp_small [OF False assms(1)] obtain k :: nat where u: "ulp x = 1 / 2 ^ k" ..
  have "x / ulp x \<le> of_int (N * 2 ^ k)" using assms(2) by (simp add: u)
  then have "round_half_even (x / ulp x) \<le> N * 2 ^ k" by (rule round_half_even_le)
  then have "(of_int (round_half_even (x / ulp x)) :: rat) \<le> of_int (N * 2 ^ k)"
    by (simp only: of_int_le_iff)
  then have "(of_int (round_half_even (x / ulp x)) :: rat) \<le> of_int N * 2 ^ k" by simp
  then have "(of_int (round_half_even (x / ulp x)) :: rat) / 2 ^ k \<le> of_int N"
    by (simp add: pos_divide_le_eq)
  with False show ?thesis by (simp add: to_double_def u)
qed

lemma to_double_of_int:
  assumes "\<bar>n\<bar> < 2 ^ 53"
  shows "to_double (of_int n) = of_int n"
proof -
  have "\<bar>of_int n :: rat\<bar> < of_int (2 ^ 53)"
    using assms by (simp only: of_int_abs [symmetric] of_int_less_iff)
  then have b: "\<bar>of_int n :: rat\<bar> < 2 ^ 53" by simp
  from to_double_ge_int [OF b, of n] to_double_le_int [OF b, of n]
  show ?thesis by simp
qed

lemma not_overflows:
  assumes "\<bar>x\<bar> < 2 ^ 53"
  shows "\<not> overflows x"
proof (cases "x = 0")
  case True
  then show ?thesis by (simp add: overflows_def)
next
  case False
  then have pos: "0 < \<bar>x\<bar>" by simp
  have "\<bar>x\<bar> < 2 powi 53" using assms by simp
  from ilog2_less [OF pos this] show ?thesis by (simp add: overflows_def)
qed

lemma STRETCH_CAPACITY_FACTOR_value: "STRETCH_CAPACITY_FACTOR = 5764607523034235 / 2 ^ 58"
  by code_simp

lemma int_to_double_small:
  assumes "\<bar>n\<bar> < 2 ^ 53"
  shows "int_to_double n = Inr (of_int n)"
proof -
  have "\<bar>of_int n :: rat\<bar> < of_int (2 ^ 53)"
    using assms by (simp only: of_int_abs [symmetric] of_int_less_iff)
  then have "\<bar>of_int n :: rat\<bar> < 2 ^ 53" by simp
  then have "\<not> overflows (of_int n)" by (rule not_overflows)
  then show ?thesis by (simp add: int_to_double_def to_double_of_int [OF assms])
qed

text \<open>For a capacity from \<open>0\<close> to below \<open>2 ^ 40\<close> and a remaining capacity of magnitude
  below \<open>2 ^ 40\<close>, the doubles of line 207 give the exact value.\<close>

lemma stretched_capacity_exact:
  assumes c0: "0 \<le> cap" and c1: "cap < 2 ^ 40" and l: "\<bar>cap_left\<bar> < 2 ^ 40"
  shows "stretched_capacity cap cap_left = Inr (cap div 50 + cap_left)"
proof -
  define X :: rat where "X = of_int cap / 50"
  define y :: rat where "y = of_int cap * STRETCH_CAPACITY_FACTOR"
  define p where "p = to_double y"
  define s where "s = p + of_int cap_left"
  define t where "t = to_double s"
  define q where "q = cap div 50"
  have cap53: "\<bar>cap\<bar> < 2 ^ 53" using c0 c1 by simp
  have left53: "\<bar>cap_left\<bar> < 2 ^ 53" using l by simp
  have X0: "0 \<le> X" using c0 by (simp add: X_def)
  have "(of_int cap :: rat) < of_int (2 ^ 40)" using c1 by (simp only: of_int_less_iff)
  then have X1: "X < 2 ^ 40 / 50" by (simp add: X_def)
  have "(of_int \<bar>cap_left\<bar> :: rat) < of_int (2 ^ 40)" using l by (simp only: of_int_less_iff)
  then have L: "\<bar>of_int cap_left :: rat\<bar> < 2 ^ 40" by simp
  have y: "y = X + X * (6 / 2 ^ 58)"
    by (simp add: y_def X_def STRETCH_CAPACITY_FACTOR_value)
  have "cap = 50 * q + cap mod 50" by (simp add: q_def)
  then have "(of_int cap :: rat) = of_int (50 * q + cap mod 50)" by simp
  then have capq: "(of_int cap :: rat) = 50 * of_int q + of_int (cap mod 50)" by simp
  have "0 \<le> cap mod 50" "cap mod 50 \<le> 49" by simp_all
  then have "(0::rat) \<le> of_int (cap mod 50)" "(of_int (cap mod 50) :: rat) \<le> of_int 49"
    by (simp_all only: of_int_le_iff of_int_0_le_iff)
  with capq have Xq: "of_int q \<le> X" "X \<le> of_int q + 49 / 50" by (simp_all add: X_def)
  have q0: "(0::rat) \<le> of_int q" using c0 by (simp add: q_def pos_imp_zdiv_nonneg_iff)
  have y0: "0 \<le> y" "X \<le> y" using X0 y by simp_all
  have y1: "y \<le> X + 1 / 2 ^ 18" using X0 X1 y by simp
  have ysmall: "\<bar>y\<bar> < 2 ^ 53" using y0 y1 X1 by simp
  have pq: "of_int q \<le> p" unfolding p_def using Xq(1) y0(2) by (intro to_double_ge_int ysmall) simp
  have "p - y \<le> \<bar>p - y\<bar>" by simp
  also have "\<dots> \<le> \<bar>y\<bar> / 2 ^ 53" unfolding p_def by (rule to_double_error)
  also have "\<dots> = y / 2 ^ 53" using y0 by simp
  finally have py: "p \<le> y + y / 2 ^ 53" by simp
  then have p1: "p \<le> X + 1 / 2 ^ 17" using y1 X1 X0 by (simp; linarith)
  have sN: "of_int (q + cap_left) \<le> s" using pq by (simp add: s_def)
  have s1: "s \<le> of_int (q + cap_left) + 49 / 50 + 1 / 2 ^ 17"
    using p1 Xq(2) by (simp add: s_def)
  have sabs: "\<bar>s\<bar> < 2 ^ 41"
    using pq q0 p1 X1 L by (simp add: s_def abs_less_iff; linarith)
  then have ssmall: "\<bar>s\<bar> < 2 ^ 53" by simp
  have tN: "of_int (q + cap_left) \<le> t" unfolding t_def using sN by (intro to_double_ge_int ssmall)
  have "t - s \<le> \<bar>t - s\<bar>" by simp
  also have "\<dots> \<le> \<bar>s\<bar> / 2 ^ 53" unfolding t_def by (rule to_double_error)
  also have "\<dots> \<le> 2 ^ 41 / 2 ^ 53" using sabs by (simp add: divide_right_mono)
  finally have "t \<le> s + 1 / 2 ^ 12" by simp
  with s1 have t1: "t < of_int (q + cap_left) + 1" by (simp; linarith)
  from tN t1 have fl: "\<lfloor>t\<rfloor> = q + cap_left" by (simp add: floor_unique)
  have "\<bar>t\<bar> < 2 ^ 53"
  proof -
    have "\<bar>of_int (q + cap_left) :: rat\<bar> \<le> of_int q + \<bar>of_int cap_left\<bar>" using q0 by simp
    moreover have "of_int q < (2::rat) ^ 40" using Xq(1) X1 by simp
    ultimately show ?thesis using tN t1 L by (simp add: abs_less_iff; linarith)
  qed
  then have nov: "\<not> overflows t" by (rule not_overflows)
  show ?thesis
    unfolding stretched_capacity_def int_to_double_small [OF cap53] int_to_double_small [OF left53]
    using nov fl
    by (simp add: Let_def t_def s_def p_def y_def q_def)
qed

text \<open>At large magnitudes they do not: the exact value here is \<open>2000000000000000\<close>.\<close>

lemma stretched_capacity_rounds:
  "stretched_capacity (10 ^ 17 + 49) 0 = Inr 2000000000000001"
  by code_simp

section \<open>The loop body of \<^verbatim>\<open>allocate_to_centers\<close>\<close>

lemma is_allocated_alloc_of: "is_allocated a b al \<longleftrightarrow> alloc_of al a b \<noteq> None"
  by (simp add: is_allocated_def alloc_of_def split: option.splits)

lemma alloc_of_allocate:
  "alloc_of (allocate sc cc n al) sc' cc' =
     (if sc' = sc \<and> cc' = cc
      then Some (case alloc_of al sc cc of None \<Rightarrow> n | Some v \<Rightarrow> v + n)
      else alloc_of al sc' cc')"
  by (auto simp: allocate_def alloc_of_def update_conv' split: option.splits)

lemma allot_step_skip:
  "is_allocated (cscode c) (scode s) (allocations L) \<Longrightarrow>
   allot_step stretch pc centers s c (n, ac, L) = Inr (n, ac, L)"
  by (simp add: allot_step_def)

lemma allot_step_unfold:
  assumes "\<not> is_allocated (cscode c) (scode s) (allocations L)"
      and "map_of (remaining_cap L) (cscode c) = Some cap0"
      and "cap_limit stretch (capacity c) cap0 = Inr cl"
  shows "allot_step stretch pc centers s c (n, ac, L) =
     (let amt = next_amount stretch pc n cl in
      if admitted stretch pc n cl then
        (if amt < MIN_STUDENT_IN_CENTER \<and> ac \<noteq> [] then
           (case centers of [] \<Rightarrow> Inl IndexError
            | c0 # _ \<Rightarrow>
               Inr (n - amt, ac,
                    L\<lparr>allocations := allocate (scode s) (cscode c0) amt (allocations L),
                      remaining_cap := AList.update (cscode c) (cap0 - amt) (remaining_cap L)\<rparr>))
         else Inr (n - amt, AList.update (cscode c) c ac,
                   L\<lparr>allocations := allocate (scode s) (cscode c) amt (allocations L),
                     remaining_cap := AList.update (cscode c) (cap0 - amt) (remaining_cap L)\<rparr>))
      else Inr (n, ac, L))"
proof (cases stretch)
  case True
  with assms(3) have "stretched_capacity (capacity c) cap0 = Inr cl"
    by (simp add: cap_limit_def)
  with True assms(1) assms(2) show ?thesis
    by (simp add: allot_step_def next_amount_def admitted_def Let_def)
next
  case False
  with assms(3) have "cl = cap0" by (simp add: cap_limit_def)
  with False assms(1) assms(2) show ?thesis
    by (simp add: allot_step_def next_amount_def admitted_def Let_def)
qed

lemma allot_step_KeyError:
  assumes "\<not> is_allocated (cscode c) (scode s) (allocations L)"
      and "map_of (remaining_cap L) (cscode c) = None"
  shows "allot_step stretch pc centers s c (n, ac, L) = Inl KeyError"
  using assms by (simp add: allot_step_def)

lemma allot_step_limit_error:
  assumes "\<not> is_allocated (cscode c) (scode s) (allocations L)"
      and "map_of (remaining_cap L) (cscode c) = Some cap0"
      and "cap_limit stretch (capacity c) cap0 = Inl e"
  shows "allot_step stretch pc centers s c (n, ac, L) = Inl e"
  using assms by (cases stretch) (simp_all add: allot_step_def cap_limit_def)

lemma allot_step_cases:
  assumes res: "allot_step stretch pc centers s c (n, ac, L) = Inr (n', ac', L')"
  obtains (skip) "n' = n" "ac' = ac" "L' = L"
  | (normal) cap0 cl amt where
      "\<not> is_allocated (cscode c) (scode s) (allocations L)"
      "map_of (remaining_cap L) (cscode c) = Some cap0"
      "cap_limit stretch (capacity c) cap0 = Inr cl"
      "amt = next_amount stretch pc n cl"
      "admitted stretch pc n cl"
      "\<not> (amt < MIN_STUDENT_IN_CENTER \<and> ac \<noteq> [])"
      "n' = n - amt" "ac' = AList.update (cscode c) c ac"
      "L' = L\<lparr>allocations := allocate (scode s) (cscode c) amt (allocations L),
               remaining_cap := AList.update (cscode c) (cap0 - amt) (remaining_cap L)\<rparr>"
  | (redirect) cap0 cl amt c0 rest where
      "\<not> is_allocated (cscode c) (scode s) (allocations L)"
      "map_of (remaining_cap L) (cscode c) = Some cap0"
      "cap_limit stretch (capacity c) cap0 = Inr cl"
      "amt = next_amount stretch pc n cl"
      "admitted stretch pc n cl"
      "amt < MIN_STUDENT_IN_CENTER" "ac \<noteq> []" "centers = c0 # rest"
      "n' = n - amt" "ac' = ac"
      "L' = L\<lparr>allocations := allocate (scode s) (cscode c0) amt (allocations L),
               remaining_cap := AList.update (cscode c) (cap0 - amt) (remaining_cap L)\<rparr>"
proof (cases "is_allocated (cscode c) (scode s) (allocations L)")
  case True
  with res skip show ?thesis by (simp add: allot_step_skip)
next
  case nalloc: False
  show ?thesis
  proof (cases "map_of (remaining_cap L) (cscode c)")
    case None
    with nalloc res show ?thesis by (simp add: allot_step_KeyError)
  next
    case (Some cap0)
    show ?thesis
    proof (cases "cap_limit stretch (capacity c) cap0")
      case (Inl e)
      with nalloc Some res show ?thesis by (simp add: allot_step_limit_error)
    next
      case (Inr cl)
      note unf = allot_step_unfold [OF nalloc Some Inr, of pc centers n ac]
      show ?thesis
      proof (cases "admitted stretch pc n cl")
        case False
        with res unf skip show ?thesis by (simp add: Let_def)
      next
        case adm: True
        show ?thesis
        proof (cases "next_amount stretch pc n cl < MIN_STUDENT_IN_CENTER \<and> ac \<noteq> []")
          case False
          with res unf adm have "n' = n - next_amount stretch pc n cl"
            "ac' = AList.update (cscode c) c ac"
            "L' = L\<lparr>allocations := allocate (scode s) (cscode c)
                       (next_amount stretch pc n cl) (allocations L),
                 remaining_cap := AList.update (cscode c)
                       (cap0 - next_amount stretch pc n cl) (remaining_cap L)\<rparr>"
            by (simp_all add: Let_def)
          with nalloc Some Inr adm False show ?thesis
            by (intro normal [OF _ _ _ refl]) simp_all
        next
          case red: True
          show ?thesis
          proof (cases centers)
            case Nil
            with res unf adm red show ?thesis by (simp add: Let_def)
          next
            case (Cons c0 rest)
            with res unf adm red have "n' = n - next_amount stretch pc n cl"
              "ac' = ac"
              "L' = L\<lparr>allocations := allocate (scode s) (cscode c0)
                       (next_amount stretch pc n cl) (allocations L),
                 remaining_cap := AList.update (cscode c)
                       (cap0 - next_amount stretch pc n cl) (remaining_cap L)\<rparr>"
              by (simp_all add: Let_def)
            with nalloc Some Inr adm red Cons show ?thesis
              by (intro redirect [OF _ _ _ refl]) simp_all
          qed
        qed
      qed
    qed
  qed
qed

section \<open>Invariants of the loop of \<^verbatim>\<open>allocate_to_centers\<close>\<close>

lemma sum_update_new:
  fixes f :: "'a \<times> 'b \<Rightarrow> int"
  shows "map_of al k = None \<Longrightarrow>
     sum_list (map f (AList.update k v al)) = sum_list (map f al) + f (k, v)"
  by (induction al) (auto split: if_splits)

lemma sum_update_old:
  fixes f :: "'a \<times> 'b \<Rightarrow> int"
  shows "map_of al k = Some w \<Longrightarrow>
     sum_list (map f (AList.update k v al)) = sum_list (map f al) - f (k, w) + f (k, v)"
  by (induction al) (auto split: if_splits)

lemma school_total_allocate:
  "school_total (allocate sc cc n al) sc' = school_total al sc' + (if sc' = sc then n else 0)"
  by (auto simp: school_total_def allocate_def update_conv' sum_update_new sum_update_old
           split: option.splits)

lemma allocated_to_allocate:
  "allocated_to (allocate sc cc n al) k = allocated_to al k + (if k = cc then n else 0)"
  by (auto simp: allocated_to_def allocate_def update_conv' sum_update_new sum_update_old
           split: option.splits)

lemma next_amount_le: "next_amount stretch pc n cl \<le> n"
  by (simp add: next_amount_def)

lemma next_amount_small:
  "MIN_STUDENT_IN_CENTER \<le> pc \<Longrightarrow> next_amount stretch pc n cl < MIN_STUDENT_IN_CENTER \<Longrightarrow>
   next_amount stretch pc n cl = n"
  by (auto simp: next_amount_def min_def max_def split: if_splits)

lemma admitted_pos: "admitted stretch pc n cl \<Longrightarrow> 0 < n \<and> 0 < next_amount stretch pc n cl"
  by (simp add: admitted_def)

lemma admitted_limit:
  "admitted stretch pc n cl \<Longrightarrow> next_amount stretch pc n cl \<le> cl"
  by (simp add: admitted_def)

lemma allot_step_demand:
  assumes "allot_step stretch pc centers s c (n, ac, L) = Inr (n', ac', L')"
  shows "n' \<le> n \<and> (0 \<le> n \<longrightarrow> 0 \<le> n')
         \<and> school_total (allocations L') (scode s)
             = school_total (allocations L) (scode s) + (n - n')"
  using assms
proof (cases rule: allot_step_cases)
  case skip
  then show ?thesis by simp
next
  case (normal cap0 cl amt)
  then show ?thesis
    using admitted_pos [of stretch pc n cl]
          next_amount_le [of stretch pc n cl]
    by (simp add: school_total_allocate)
next
  case (redirect cap0 cl amt c0 rest)
  then show ?thesis
    using admitted_pos [of stretch pc n cl]
          next_amount_le [of stretch pc n cl]
    by (simp add: school_total_allocate)
qed

lemma allot_loop_demand:
  "allot_loop stretch pc centers s cs (n, ac, L) = Inr (n', ac', L') \<Longrightarrow>
   n' \<le> n \<and> (0 \<le> n \<longrightarrow> 0 \<le> n')
     \<and> school_total (allocations L') (scode s)
         = school_total (allocations L) (scode s) + (n - n')"
proof (induction cs arbitrary: n ac L)
  case Nil
  then show ?case by simp
next
  case (Cons c cs)
  from Cons.prems obtain n1 ac1 L1 where
    st: "allot_step stretch pc centers s c (n, ac, L) = Inr (n1, ac1, L1)" and
    lp: "allot_loop stretch pc centers s cs (n1, ac1, L1) = Inr (n', ac', L')"
    by (auto split: sum.splits)
  from allot_step_demand [OF st] Cons.IH [OF lp] show ?case by auto
qed

lemma stretch_allowance_div: "stretch_allowance cap = cap div 50"
proof -
  have "(of_int cap :: rat) * (2 / 100) = of_int cap / of_int 50" by simp
  then show ?thesis
    unfolding stretch_allowance_def by (simp only: floor_divide_of_int_eq)
qed

text \<open>A step leaves every remaining capacity alone or decrements that of the candidate; the
  value left is at least \<open>0\<close> without stretch, and with stretch at least minus the allowance
  when the capacity and the remaining capacity are of ordinary magnitude.\<close>

lemma allot_step_remaining:
  assumes st: "allot_step stretch pc centers s c (n, ac, L) = Inr (n', ac', L')"
      and mag: "stretch \<longrightarrow> 0 \<le> capacity c \<and> capacity c < 2 ^ 40
                  \<and> \<bar>remaining_of L (cscode c)\<bar> < 2 ^ 40"
  shows "map_of (remaining_cap L') k = map_of (remaining_cap L) k
         \<or> (\<exists>v amt. k = cscode c \<and> map_of (remaining_cap L) k = Some v
               \<and> map_of (remaining_cap L') k = Some (v - amt) \<and> 0 < amt
               \<and> (if stretch then - stretch_allowance (capacity c) else 0) \<le> v - amt)"
proof -
  have bound: "(if stretch then - stretch_allowance (capacity c) else 0) \<le> cap0 - amt"
    if cap0: "map_of (remaining_cap L) (cscode c) = Some cap0"
      and cl: "cap_limit stretch (capacity c) cap0 = Inr cl"
      and amt: "amt = next_amount stretch pc n cl"
      and adm: "admitted stretch pc n cl" for cap0 cl amt
  proof (cases stretch)
    case True
    from cap0 have "remaining_of L (cscode c) = cap0" by (simp add: remaining_of_def)
    with mag True have "0 \<le> capacity c" "capacity c < 2 ^ 40" "\<bar>cap0\<bar> < 2 ^ 40" by simp_all
    from stretched_capacity_exact [OF this] cl True
    have "cl = capacity c div 50 + cap0" by (simp add: cap_limit_def)
    with admitted_limit [OF adm] amt True show ?thesis
      by (simp add: stretch_allowance_div)
  next
    case False
    with cl have "cl = cap0" by (simp add: cap_limit_def)
    with admitted_limit [OF adm] amt False show ?thesis by simp
  qed
  from st show ?thesis
  proof (cases rule: allot_step_cases)
    case skip
    then show ?thesis by simp
  next
    case (normal cap0 cl amt)
    from bound [OF normal(2) normal(3) normal(4) normal(5)] normal admitted_pos [of stretch pc n cl]
    show ?thesis by (auto simp: update_conv')
  next
    case (redirect cap0 cl amt c0 rest)
    from bound [OF redirect(2) redirect(3) redirect(4) redirect(5)] redirect
      admitted_pos [of stretch pc n cl]
    show ?thesis by (auto simp: update_conv')
  qed
qed

lemma allot_step_done:
  assumes "allot_step stretch pc centers s c (n, ac, L) = Inr r" and "n \<le> 0"
  shows "r = (n, ac, L)"
proof -
  obtain n' ac' L' where r: "r = (n', ac', L')" by (cases r) auto
  from assms(1) [unfolded r] show ?thesis
  proof (cases rule: allot_step_cases)
    case skip
    then show ?thesis by (simp add: r)
  next
    case (normal cap0 cl amt)
    with assms(2) admitted_pos [of stretch pc n cl] show ?thesis by simp
  next
    case (redirect cap0 cl amt c0 rest)
    with assms(2) admitted_pos [of stretch pc n cl] show ?thesis by simp
  qed
qed

lemma allot_loop_done:
  "allot_loop stretch pc centers s cs (n, ac, L) = Inr r \<Longrightarrow> n \<le> 0 \<Longrightarrow> r = (n, ac, L)"
proof (induction cs)
  case Nil
  then show ?case by simp
next
  case (Cons c cs)
  from Cons.prems(1) obtain r1 where
    st: "allot_step stretch pc centers s c (n, ac, L) = Inr r1" and
    lp: "allot_loop stretch pc centers s cs r1 = Inr r"
    by (auto split: sum.splits)
  from allot_step_done [OF st Cons.prems(2)] have "r1 = (n, ac, L)" .
  with lp Cons.IH Cons.prems(2) show ?case by simp
qed

lemma allot_step_recorded:
  assumes "allot_step stretch pc centers s c (n, ac, L) = Inr (n', ac', L')"
      and "MIN_STUDENT_IN_CENTER \<le> pc"
  shows "allocated_to (allocations L') k - allocated_to (allocations L) k
           = remaining_of L k - remaining_of L' k
         \<or> (n' = 0 \<and> centers \<noteq> [] \<and> 0 \<le> remaining_of L k - remaining_of L' k
             \<and> allocated_to (allocations L') k - allocated_to (allocations L) k
                 \<le> (if k = cscode (hd centers) then MIN_STUDENT_IN_CENTER - 1 else 0))"
  using assms(1)
proof (cases rule: allot_step_cases)
  case skip
  then show ?thesis by simp
next
  case (normal cap0 cl amt)
  then show ?thesis
    by (simp add: allocated_to_allocate remaining_of_def update_conv')
next
  case (redirect cap0 cl amt c0 rest)
  have "amt = n" using redirect next_amount_small [OF assms(2), of stretch n cl]
    by simp
  moreover have "0 < amt"
    using redirect admitted_pos [of stretch pc n cl] by simp
  ultimately show ?thesis using redirect
    by (auto simp: allocated_to_allocate remaining_of_def update_conv')
qed

lemma allot_loop_recorded:
  "allot_loop stretch pc centers s cs (n, ac, L) = Inr (n', ac', L') \<Longrightarrow>
   MIN_STUDENT_IN_CENTER \<le> pc \<Longrightarrow>
   allocated_to (allocations L') k - allocated_to (allocations L) k
     \<le> remaining_of L k - remaining_of L' k
        + (if centers \<noteq> [] \<and> k = cscode (hd centers) then MIN_STUDENT_IN_CENTER - 1 else 0)"
proof (induction cs arbitrary: n ac L)
  case Nil
  then show ?case by (simp add: MIN_STUDENT_IN_CENTER_def)
next
  case (Cons c cs)
  from Cons.prems(1) obtain n1 ac1 L1 where
    st: "allot_step stretch pc centers s c (n, ac, L) = Inr (n1, ac1, L1)" and
    lp: "allot_loop stretch pc centers s cs (n1, ac1, L1) = Inr (n', ac', L')"
    by (auto split: sum.splits)
  from allot_step_recorded [OF st Cons.prems(2), of k] show ?case
  proof
    assume eq: "allocated_to (allocations L1) k - allocated_to (allocations L) k
                  = remaining_of L k - remaining_of L1 k"
    from Cons.IH [OF lp Cons.prems(2)] eq show ?thesis by simp
  next
    assume red: "n1 = 0 \<and> centers \<noteq> [] \<and> 0 \<le> remaining_of L k - remaining_of L1 k
             \<and> allocated_to (allocations L1) k - allocated_to (allocations L) k
                 \<le> (if k = cscode (hd centers) then MIN_STUDENT_IN_CENTER - 1 else 0)"
    then have "(n', ac', L') = (n1, ac1, L1)"
      using allot_loop_done [OF lp] by simp
    with red show ?thesis by (simp split: if_splits)
  qed
qed

section \<open>The loop body of the main loop\<close>

lemma process_school_Inr:
  assumes "process_school geo prefs rs centers s st = Inr st'"
  obtains cfs p1 r ac L1 new_rows where
    "centers_within_distance geo prefs rs (pos st) s centers PREF_DISTANCE_THRESHOLD
       = Inr (cfs, p1)"
    "allocate_to_centers cfs s (count s) (led st) False = Inr (r, ac, L1)"
    "r \<le> 0"
    "allocation_rows s (allocations L1) (map snd ac) = Inr new_rows"
    "st' = \<lparr>led = L1, remaining = remaining st, rows = rows st @ new_rows, pos = p1\<rparr>"
  using assms unfolding process_school_def
  by (auto split: sum.splits prod.splits if_splits)

lemma process_school_remainder:
  assumes "centers_within_distance geo prefs rs (pos st) s centers PREF_DISTANCE_THRESHOLD
             = Inr (cfs, p1)"
      and "allocate_to_centers cfs s (count s) (led st) False = Inr (r, ac, L1)"
      and "0 < r"
  shows "\<exists>e. process_school geo prefs rs centers s st = Inl e"
  using assms unfolding process_school_def
  by (auto split: sum.splits prod.splits)

section \<open>Recorded amounts and consumed capacity, per call and per run\<close>

lemma calc_per_center_min: "MIN_STUDENT_IN_CENTER \<le> calc_per_center n"
  by (simp add: calc_per_center_def MIN_STUDENT_IN_CENTER_def)

lemma call_recorded:
  assumes "allocate_to_centers cs s n L stretch = Inr (n', ac', L')"
  shows "allocated_to (allocations L') k - allocated_to (allocations L) k
           \<le> remaining_of L k - remaining_of L' k
              + (if cs \<noteq> [] \<and> k = cscode (hd cs) then MIN_STUDENT_IN_CENTER - 1 else 0)"
  using assms unfolding allocate_to_centers_def
  by (rule allot_loop_recorded) (rule calc_per_center_min)

lemma process_school_recorded:
  assumes "process_school geo prefs rs centers s st = Inr st'"
  shows "allocated_to (allocations (led st')) k + remaining_of (led st') k
           \<le> allocated_to (allocations (led st)) k + remaining_of (led st) k
              + (MIN_STUDENT_IN_CENTER - 1)"
proof -
  from assms obtain cfs p1 r ac La new_rows where
    call: "allocate_to_centers cfs s (count s) (led st) False = Inr (r, ac, La)" and
    st': "st' = \<lparr>led = La, remaining = remaining st, rows = rows st @ new_rows, pos = p1\<rparr>"
    by (rule process_school_Inr)
  from call_recorded [OF call, of k] st'
  show ?thesis by (auto simp: MIN_STUDENT_IN_CENTER_def split: if_splits)
qed

text \<open>Over a run that completes, the amounts recorded against a center exceed the capacity
  consumed from it by less than \<open>MIN_STUDENT_IN_CENTER\<close> per school.\<close>

lemma main_loop_recorded:
  "main_loop geo prefs rs centers ss st = Inr st' \<Longrightarrow>
   allocated_to (allocations (led st')) k + remaining_of (led st') k
     \<le> allocated_to (allocations (led st)) k + remaining_of (led st) k
        + (MIN_STUDENT_IN_CENTER - 1) * int (length ss)"
proof (induction ss arbitrary: st)
  case Nil
  then show ?case by simp
next
  case (Cons s ss)
  from Cons.prems obtain st1 where
    ps: "process_school geo prefs rs centers s st = Inr st1" and
    ml: "main_loop geo prefs rs centers ss st1 = Inr st'"
    by (auto split: sum.splits)
  from process_school_recorded [OF ps, of k] Cons.IH [OF ml] show ?case
    by (auto simp: algebra_simps)
qed

lemma length_sorted_schools: "length (sorted_schools rs schools) = length schools"
  by (simp add: sorted_schools_def)

section \<open>Candidate selection and the own code of a school\<close>

lemma cscode_center_to_dict: "cscode (center_to_dict c d) = cscode c"
  by (simp add: center_to_dict_def)

lemma set_sorted_centers: "set (sorted_centers prefs rs p s xs) = snd ` set xs"
proof -
  have "snd ` (\<lambda>(i, d, c). (center_sort_key prefs rs s i d c, c)) ` set (enumerate p xs)
          = snd ` snd ` set (enumerate p xs)"
    by (force simp: image_iff)
  also have "snd ` set (enumerate p xs) = set xs" by (metis set_map map_snd_enumerate)
  finally show ?thesis by (simp add: sorted_centers_def)
qed

lemma scan_centers_codes:
  "scan_centers geo prefs s thr cs nearest wd = Inr (nearest', wd') \<Longrightarrow>
   (\<forall>x \<in> set wd. cscode (snd x) \<noteq> scode s) \<Longrightarrow>
   (\<forall>nc nd. nearest = Some (nc, nd) \<longrightarrow> cscode nc \<noteq> scode s) \<Longrightarrow>
   (\<forall>x \<in> set wd'. cscode (snd x) \<noteq> scode s)
   \<and> (\<forall>nc nd. nearest' = Some (nc, nd) \<longrightarrow> cscode nc \<noteq> scode s)"
proof (induction cs arbitrary: nearest wd)
  case Nil
  then show ?case by simp
next
  case (Cons c cs)
  from Cons.prems(1) obtain d where d: "geo (lat s) (long s) (clat c) (clong c) = Some d"
    by (auto split: option.splits)
  show ?case
  proof (cases "scode s = cscode c")
    case True
    with Cons.prems d have "scan_centers geo prefs s thr cs nearest wd = Inr (nearest', wd')"
      by simp
    from Cons.IH [OF this Cons.prems(2) Cons.prems(3)] show ?thesis .
  next
    case False
    let ?n = "case nearest of None \<Rightarrow> Some (c, d)
              | Some (nc, nd) \<Rightarrow> if distance_less d nd then Some (c, d) else nearest"
    let ?w = "case d of
                Km x \<Rightarrow>
                  if x \<le> thr \<and> PREF_CUTOFF < get_pref prefs (scode s) (cscode c)
                  then wd @ [(x, center_to_dict c d)] else wd
              | NaN \<Rightarrow> wd"
    from False Cons.prems(1) d have
      sc: "scan_centers geo prefs s thr cs ?n ?w = Inr (nearest', wd')" by simp
    have w: "\<forall>x \<in> set ?w. cscode (snd x) \<noteq> scode s" using Cons.prems(2) False
      by (auto simp: cscode_center_to_dict split: distance.splits)
    have n: "\<forall>nc nd. ?n = Some (nc, nd) \<longrightarrow> cscode nc \<noteq> scode s"
      using Cons.prems(3) False by (auto split: option.splits if_splits)
    from Cons.IH [OF sc w n] show ?thesis .
  qed
qed

lemma centers_within_distance_codes:
  assumes "centers_within_distance geo prefs rs p s centers thr = Inr (cands, p')"
  shows "\<forall>c \<in> set cands. cscode c \<noteq> scode s"
proof (cases "length (lat s) = 0 \<or> length (long s) = 0")
  case True
  with assms show ?thesis by (simp add: centers_within_distance_def)
next
  case False
  with assms obtain nearest wd where
    sc: "scan_centers geo prefs s thr centers None [] = Inr (nearest, wd)"
    by (auto simp: centers_within_distance_def split: sum.splits)
  from scan_centers_codes [OF sc] have
    w: "\<forall>x \<in> set wd. cscode (snd x) \<noteq> scode s" and
    n: "\<forall>nc nd. nearest = Some (nc, nd) \<longrightarrow> cscode nc \<noteq> scode s" by simp_all
  show ?thesis
  proof (cases "wd = []")
    case True
    with assms False sc n show ?thesis
      by (auto simp: centers_within_distance_def cscode_center_to_dict split: option.splits)
  next
    case nonempty: False
    with assms False sc have "cands = sorted_centers prefs rs p s wd"
      by (auto simp: centers_within_distance_def)
    with w show ?thesis by (simp add: set_sorted_centers)
  qed
qed

lemma allot_step_no_self:
  assumes st: "allot_step stretch pc centers s c (n, ac, L) = Inr (n', ac', L')"
      and c: "cscode c \<noteq> scode s"
      and h: "\<forall>x \<in> set centers. cscode x \<noteq> scode s"
      and inv: "alloc_of (allocations L) k k = None"
  shows "alloc_of (allocations L') k k = None"
  using st
proof (cases rule: allot_step_cases)
  case skip
  with inv show ?thesis by simp
next
  case (normal cap0 cl amt)
  with inv c show ?thesis by (auto simp: alloc_of_allocate)
next
  case (redirect cap0 cl amt c0 rest)
  with h have "cscode c0 \<noteq> scode s" by simp
  with redirect inv show ?thesis by (auto simp: alloc_of_allocate)
qed

lemma allot_loop_no_self:
  "allot_loop stretch pc centers s cs (n, ac, L) = Inr (n', ac', L') \<Longrightarrow>
   \<forall>x \<in> set cs. cscode x \<noteq> scode s \<Longrightarrow>
   \<forall>x \<in> set centers. cscode x \<noteq> scode s \<Longrightarrow>
   alloc_of (allocations L) k k = None \<Longrightarrow>
   alloc_of (allocations L') k k = None"
proof (induction cs arbitrary: n ac L)
  case Nil
  then show ?case by simp
next
  case (Cons c cs)
  from Cons.prems(1) obtain n1 ac1 L1 where
    st: "allot_step stretch pc centers s c (n, ac, L) = Inr (n1, ac1, L1)" and
    lp: "allot_loop stretch pc centers s cs (n1, ac1, L1) = Inr (n', ac', L')"
    by (auto split: sum.splits)
  from Cons.prems(2) have c: "cscode c \<noteq> scode s" and cs: "\<forall>x \<in> set cs. cscode x \<noteq> scode s"
    by simp_all
  from allot_step_no_self [OF st c Cons.prems(3) Cons.prems(4)]
  have "alloc_of (allocations L1) k k = None" .
  from Cons.IH [OF lp cs Cons.prems(3) this] show ?case .
qed

lemma process_school_no_self:
  assumes "process_school geo prefs rs centers s st = Inr st'"
      and "alloc_of (allocations (led st)) k k = None"
  shows "alloc_of (allocations (led st')) k k = None"
proof -
  from assms(1) obtain cfs p1 r ac La new_rows where
    sel: "centers_within_distance geo prefs rs (pos st) s centers PREF_DISTANCE_THRESHOLD
            = Inr (cfs, p1)" and
    call: "allocate_to_centers cfs s (count s) (led st) False = Inr (r, ac, La)" and
    st': "st' = \<lparr>led = La, remaining = remaining st, rows = rows st @ new_rows, pos = p1\<rparr>"
    by (rule process_school_Inr)
  from centers_within_distance_codes [OF sel]
  have codes: "\<forall>x \<in> set cfs. cscode x \<noteq> scode s" .
  from allot_loop_no_self [OF call [unfolded allocate_to_centers_def] codes codes assms(2)] st'
  show ?thesis by simp
qed

lemma main_loop_no_self:
  "main_loop geo prefs rs centers ss st = Inr st' \<Longrightarrow>
   alloc_of (allocations (led st)) k k = None \<Longrightarrow>
   alloc_of (allocations (led st')) k k = None"
proof (induction ss arbitrary: st)
  case Nil
  then show ?case by simp
next
  case (Cons s ss)
  from Cons.prems(1) obtain st1 where
    ps: "process_school geo prefs rs centers s st = Inr st1" and
    ml: "main_loop geo prefs rs centers ss st1 = Inr st'"
    by (auto split: sum.splits)
  from Cons.IH [OF ml process_school_no_self [OF ps Cons.prems(2)]] show ?case .
qed

section \<open>The nearest center when no center qualifies\<close>

lemma scan_centers_fallback:
  "\<forall>c \<in> set cs. \<exists>d. dist_to geo s c = Some (Km d) \<Longrightarrow>
   \<forall>c \<in> set cs. \<not> qualifies geo prefs s thr c \<Longrightarrow>
   \<exists>nearest'. scan_centers geo prefs s thr cs (map_option (apsnd Km) nearest) wd
                 = Inr (map_option (apsnd Km) nearest', wd)
     \<and> (nearest' = None \<longleftrightarrow> nearest = None \<and> (\<forall>c \<in> set cs. cscode c = scode s))
     \<and> (\<forall>nc nd. nearest' = Some (nc, nd) \<longrightarrow>
           (nearest = Some (nc, nd)
              \<or> (nc \<in> set cs \<and> cscode nc \<noteq> scode s \<and> dist_to geo s nc = Some (Km nd)))
           \<and> (\<forall>oc od. nearest = Some (oc, od) \<longrightarrow> nd \<le> od)
           \<and> (\<forall>c \<in> set cs. cscode c \<noteq> scode s \<longrightarrow>
                 (\<forall>d. dist_to geo s c = Some (Km d) \<longrightarrow> nd \<le> d)))"
proof (induction cs arbitrary: nearest)
  case Nil
  then show ?case by auto
next
  case (Cons c cs)
  from Cons.prems(1) obtain d where d: "geo (lat s) (long s) (clat c) (clong c) = Some (Km d)"
    by (auto simp: dist_to_def)
  have rest1: "\<forall>c \<in> set cs. \<exists>d. dist_to geo s c = Some (Km d)" using Cons.prems(1) by simp
  have rest2: "\<forall>c \<in> set cs. \<not> qualifies geo prefs s thr c" using Cons.prems(2) by simp
  show ?case
  proof (cases "scode s = cscode c")
    case True
    from Cons.IH [OF rest1 rest2, of nearest] obtain n' where
      n': "scan_centers geo prefs s thr cs (map_option (apsnd Km) nearest) wd
             = Inr (map_option (apsnd Km) n', wd)"
        "n' = None \<longleftrightarrow> nearest = None \<and> (\<forall>c \<in> set cs. cscode c = scode s)"
        "\<forall>nc nd. n' = Some (nc, nd) \<longrightarrow>
           (nearest = Some (nc, nd)
              \<or> (nc \<in> set cs \<and> cscode nc \<noteq> scode s \<and> dist_to geo s nc = Some (Km nd)))
           \<and> (\<forall>oc od. nearest = Some (oc, od) \<longrightarrow> nd \<le> od)
           \<and> (\<forall>c \<in> set cs. cscode c \<noteq> scode s \<longrightarrow>
                 (\<forall>d. dist_to geo s c = Some (Km d) \<longrightarrow> nd \<le> d))"
      by blast
    from True d n'(1) have
      "scan_centers geo prefs s thr (c # cs) (map_option (apsnd Km) nearest) wd
         = Inr (map_option (apsnd Km) n', wd)"
      by simp
    moreover from n'(2) True have
      "n' = None \<longleftrightarrow> nearest = None \<and> (\<forall>x \<in> set (c # cs). cscode x = scode s)" by simp
    moreover from n'(3) True have "\<forall>nc nd. n' = Some (nc, nd) \<longrightarrow>
           (nearest = Some (nc, nd)
              \<or> (nc \<in> set (c # cs) \<and> cscode nc \<noteq> scode s \<and> dist_to geo s nc = Some (Km nd)))
           \<and> (\<forall>oc od. nearest = Some (oc, od) \<longrightarrow> nd \<le> od)
           \<and> (\<forall>x \<in> set (c # cs). cscode x \<noteq> scode s \<longrightarrow>
                 (\<forall>d. dist_to geo s x = Some (Km d) \<longrightarrow> nd \<le> d))"
      by simp blast
    ultimately show ?thesis by blast
  next
    case False
    let ?n = "case nearest of None \<Rightarrow> Some (c, d)
              | Some (nc, nd) \<Rightarrow> if d < nd then Some (c, d) else nearest"
    from Cons.prems(2) False d have nq: "\<not> (d \<le> thr \<and> PREF_CUTOFF < get_pref prefs (scode s) (cscode c))"
      by (auto simp: qualifies_def dist_to_def)
    from Cons.IH [OF rest1 rest2, of ?n] obtain n' where
      n': "scan_centers geo prefs s thr cs (map_option (apsnd Km) ?n) wd
             = Inr (map_option (apsnd Km) n', wd)"
        "n' = None \<longleftrightarrow> ?n = None \<and> (\<forall>c \<in> set cs. cscode c = scode s)"
        "\<forall>nc nd. n' = Some (nc, nd) \<longrightarrow>
           (?n = Some (nc, nd)
              \<or> (nc \<in> set cs \<and> cscode nc \<noteq> scode s \<and> dist_to geo s nc = Some (Km nd)))
           \<and> (\<forall>oc od. ?n = Some (oc, od) \<longrightarrow> nd \<le> od)
           \<and> (\<forall>c \<in> set cs. cscode c \<noteq> scode s \<longrightarrow>
                 (\<forall>d. dist_to geo s c = Some (Km d) \<longrightarrow> nd \<le> d))"
      by blast
    have nsome: "?n \<noteq> None" by (auto split: option.splits)
    have ncases: "\<And>nc nd. ?n = Some (nc, nd) \<Longrightarrow>
        (nearest = Some (nc, nd) \<and> nd \<le> d) \<or> ((nc, nd) = (c, d)
           \<and> (\<forall>oc od. nearest = Some (oc, od) \<longrightarrow> d < od))"
      by (auto split: option.splits if_splits)
    have neq: "(case map_option (apsnd Km) nearest of
                  None \<Rightarrow> Some (c, Km d)
                | Some (nc, nd) \<Rightarrow>
                    if distance_less (Km d) nd then Some (c, Km d)
                    else map_option (apsnd Km) nearest)
               = map_option (apsnd Km) ?n"
      by (cases nearest) (auto simp: distance_less_def)
    from nq have w: "(if d \<le> thr \<and> PREF_CUTOFF < get_pref prefs (scode s) (cscode c)
                      then wd @ [(d, center_to_dict c (Km d))] else wd) = wd"
      by (rule if_not_P)
    from False d n'(1) have
      "scan_centers geo prefs s thr (c # cs) (map_option (apsnd Km) nearest) wd
         = Inr (map_option (apsnd Km) n', wd)"
      by (simp only: scan_centers.simps option.case distance.case if_False w neq)
    moreover from n'(2) nsome False have
      "n' = None \<longleftrightarrow> nearest = None \<and> (\<forall>x \<in> set (c # cs). cscode x = scode s)" by auto
    moreover have "\<forall>nc nd. n' = Some (nc, nd) \<longrightarrow>
           (nearest = Some (nc, nd)
              \<or> (nc \<in> set (c # cs) \<and> cscode nc \<noteq> scode s \<and> dist_to geo s nc = Some (Km nd)))
           \<and> (\<forall>oc od. nearest = Some (oc, od) \<longrightarrow> nd \<le> od)
           \<and> (\<forall>x \<in> set (c # cs). cscode x \<noteq> scode s \<longrightarrow>
                 (\<forall>d. dist_to geo s x = Some (Km d) \<longrightarrow> nd \<le> d))"
    proof (intro allI impI)
      fix nc nd assume eq: "n' = Some (nc, nd)"
      from n'(3) eq have
        a: "?n = Some (nc, nd)
              \<or> (nc \<in> set cs \<and> cscode nc \<noteq> scode s \<and> dist_to geo s nc = Some (Km nd))" and
        b: "\<forall>oc od. ?n = Some (oc, od) \<longrightarrow> nd \<le> od" and
        e: "\<forall>c \<in> set cs. cscode c \<noteq> scode s \<longrightarrow>
                 (\<forall>d. dist_to geo s c = Some (Km d) \<longrightarrow> nd \<le> d)"
        by blast+
      obtain mc md where m: "?n = Some (mc, md)" using nsome by (cases ?n) auto
      from b m have le: "nd \<le> md" by blast
      from ncases [OF m] have mcase: "(nearest = Some (mc, md) \<and> md \<le> d) \<or> ((mc, md) = (c, d)
           \<and> (\<forall>oc od. nearest = Some (oc, od) \<longrightarrow> d < od))" .
      have p1: "nearest = Some (nc, nd)
              \<or> (nc \<in> set (c # cs) \<and> cscode nc \<noteq> scode s \<and> dist_to geo s nc = Some (Km nd))"
        using a ncases [of nc nd] False d by (auto simp: dist_to_def)
      have p2: "\<forall>oc od. nearest = Some (oc, od) \<longrightarrow> nd \<le> od"
        using mcase le by auto
      have p3: "nd \<le> d" using mcase le by auto
      have p4: "\<forall>x \<in> set (c # cs). cscode x \<noteq> scode s \<longrightarrow>
                 (\<forall>d. dist_to geo s x = Some (Km d) \<longrightarrow> nd \<le> d)"
        using e p3 d by (auto simp: dist_to_def)
      from p1 p2 p4 show "(nearest = Some (nc, nd)
              \<or> (nc \<in> set (c # cs) \<and> cscode nc \<noteq> scode s \<and> dist_to geo s nc = Some (Km nd)))
           \<and> (\<forall>oc od. nearest = Some (oc, od) \<longrightarrow> nd \<le> od)
           \<and> (\<forall>x \<in> set (c # cs). cscode x \<noteq> scode s \<longrightarrow>
                 (\<forall>d. dist_to geo s x = Some (Km d) \<longrightarrow> nd \<le> d))" by blast
    qed
    ultimately show ?thesis by blast
  qed
qed

section \<open>Claims about one allocation step\<close>

text \<open>
  Claim C7. In a non-stretch call, for a candidate that is not skipped and whose remaining
  capacity is \<open>cap0\<close>, the amount proposed is
  \<open>min to_allot (min per_center (max cap0 MIN_STUDENT_IN_CENTER))\<close>, where \<open>per_center\<close> is
  100 when the count the call was given is at most 400 and 200 otherwise (the call runs the
  loop with this cap; the main loop gives the school's count to the normal call). The allocation
  proceeds exactly when \<open>to_allot > 0\<close>, the amount is positive and \<open>cap0\<close> is at least the
  amount: then \<open>to_allot\<close> and the center's remaining capacity both drop by the amount, which
  is recorded for the school (against this center, or against the first candidate when the
  leftover is redirected); otherwise the step changes nothing.
\<close>

theorem C7_non_stretch_amount:
  assumes "map_of (remaining_cap L) (cscode c) = Some cap0"
      and "\<not> is_allocated (cscode c) (scode s) (allocations L)"
      and "allot_step False (calc_per_center cnt) centers s c (to_allot, ac, L)
             = Inr (to_allot', ac', L')"
  shows "allocate_to_centers centers s cnt L0 False
           = allot_loop False (if cnt \<le> 400 then 100 else 200) centers s centers (cnt, [], L0)
         \<and> (let per_center = (if cnt \<le> 400 then 100 else 200);
                 amt = min to_allot (min per_center (max cap0 MIN_STUDENT_IN_CENTER))
             in if 0 < to_allot \<and> 0 < amt \<and> amt \<le> cap0
                then to_allot' = to_allot - amt
                     \<and> map_of (remaining_cap L') (cscode c) = Some (cap0 - amt)
                     \<and> (allocations L' = allocate (scode s) (cscode c) amt (allocations L)
                          \<or> allocations L'
                              = allocate (scode s) (cscode (hd centers)) amt (allocations L))
                else (to_allot', ac', L') = (to_allot, ac, L))"
proof (rule conjI)
  show "allocate_to_centers centers s cnt L0 False
          = allot_loop False (if cnt \<le> 400 then 100 else 200) centers s centers (cnt, [], L0)"
    by (simp add: allocate_to_centers_def calc_per_center_def)
next
  define amt where "amt = min to_allot (min (calc_per_center cnt) (max cap0 MIN_STUDENT_IN_CENTER))"
  have amt: "next_amount False (calc_per_center cnt) to_allot cap0 = amt"
    by (simp add: next_amount_def amt_def)
  have adm: "admitted False (calc_per_center cnt) to_allot cap0
               \<longleftrightarrow> 0 < to_allot \<and> 0 < amt \<and> amt \<le> cap0"
    by (simp add: admitted_def amt)
  have cl: "cap_limit False (capacity c) cap0 = Inr cap0"
    by (simp add: cap_limit_def)
  have "if 0 < to_allot \<and> 0 < amt \<and> amt \<le> cap0
        then to_allot' = to_allot - amt
             \<and> map_of (remaining_cap L') (cscode c) = Some (cap0 - amt)
             \<and> (allocations L' = allocate (scode s) (cscode c) amt (allocations L)
                  \<or> allocations L' = allocate (scode s) (cscode (hd centers)) amt (allocations L))
        else (to_allot', ac', L') = (to_allot, ac, L)"
    using assms(3) allot_step_unfold [OF assms(2) assms(1) cl, of "calc_per_center cnt" centers to_allot ac]
    by (auto simp: amt adm Let_def update_conv' split: if_splits list.splits)
  then show "let per_center = (if cnt \<le> 400 then 100 else 200);
                 amt = min to_allot (min per_center (max cap0 MIN_STUDENT_IN_CENTER))
             in if 0 < to_allot \<and> 0 < amt \<and> amt \<le> cap0
                then to_allot' = to_allot - amt
                     \<and> map_of (remaining_cap L') (cscode c) = Some (cap0 - amt)
                     \<and> (allocations L' = allocate (scode s) (cscode c) amt (allocations L)
                          \<or> allocations L'
                              = allocate (scode s) (cscode (hd centers)) amt (allocations L))
                else (to_allot', ac', L') = (to_allot, ac, L)"
    unfolding amt_def calc_per_center_def Let_def .
qed

theorem C7_non_stretch_amount_witness:
  "map_of (remaining_cap \<lparr>allocations = [], remaining_cap = [(''A'', 80)]\<rparr>) ''A'' = Some 80
   \<and> \<not> is_allocated ''A'' ''S'' []
   \<and> allot_step False (calc_per_center 150) [center_to_dict (ex_center ''A'' 80 ''27.70'') (Km 1)]
        (ex_school ''S'' 150 ''27.69'') (center_to_dict (ex_center ''A'' 80 ''27.70'') (Km 1))
        (150, [], \<lparr>allocations = [], remaining_cap = [(''A'', 80)]\<rparr>)
      = Inr (70, [(''A'', center_to_dict (ex_center ''A'' 80 ''27.70'') (Km 1))],
             \<lparr>allocations = [(''S'', [(''A'', 80)])], remaining_cap = [(''A'', 0)]\<rparr>)
   \<and> min (150::int) (min 100 (max 80 MIN_STUDENT_IN_CENTER)) = 80"
proof -
  let ?L = "\<lparr>allocations = [], remaining_cap = [(''A'', 80)]\<rparr>"
  let ?c = "center_to_dict (ex_center ''A'' 80 ''27.70'') (Km 1)"
  let ?s = "ex_school ''S'' 150 ''27.69''"
  have h1: "map_of (remaining_cap ?L) (cscode ?c) = Some 80"
    by (simp add: center_to_dict_def ex_center_def)
  have h2: "\<not> is_allocated (cscode ?c) (scode ?s) (allocations ?L)"
    by (simp add: is_allocated_def)
  have h3: "allot_step False (calc_per_center 150) [?c] ?s ?c (150, [], ?L)
      = Inr (70, [(''A'', ?c)],
             \<lparr>allocations = [(''S'', [(''A'', 80)])], remaining_cap = [(''A'', 0)]\<rparr>)"
    by (simp add: allot_step_def is_allocated_def calc_per_center_def MIN_STUDENT_IN_CENTER_def
          allocate_def center_to_dict_def ex_center_def ex_school_def)
  from C7_non_stretch_amount [OF h1 h2 h3] h1 h2 h3 show ?thesis
    by (simp add: MIN_STUDENT_IN_CENTER_def center_to_dict_def ex_center_def ex_school_def)
qed

section \<open>The allocation record and the guard of the loop\<close>

text \<open>
  Claim C2 (a pair is recorded at most once; a second allocation to a recorded pair is
  skipped, never added) fails on the code. Two calls for the same school over the same
  candidate: the first records 100 for \<open>(S, A)\<close>, the second is not skipped and adds 50 to
  the recorded value.
\<close>

theorem C2_pair_updated_twice:
  "allocate_to_centers [center_to_dict (ex_center ''A'' 300 ''27.70'') (Km 1)]
      (ex_school ''S'' 150 ''27.69'') 150
      \<lparr>allocations = [], remaining_cap = [(''A'', 300)]\<rparr> False
     = Inr (50, [(''A'', center_to_dict (ex_center ''A'' 300 ''27.70'') (Km 1))],
            \<lparr>allocations = [(''S'', [(''A'', 100)])], remaining_cap = [(''A'', 200)]\<rparr>)
   \<and> allocate_to_centers [center_to_dict (ex_center ''A'' 300 ''27.70'') (Km 1)]
      (ex_school ''S'' 150 ''27.69'') 50
      \<lparr>allocations = [(''S'', [(''A'', 100)])], remaining_cap = [(''A'', 200)]\<rparr> True
     = Inr (0, [(''A'', center_to_dict (ex_center ''A'' 300 ''27.70'') (Km 1))],
            \<lparr>allocations = [(''S'', [(''A'', 150)])], remaining_cap = [(''A'', 150)]\<rparr>)"
  by code_simp

text \<open>
  Claim C2 as amended. \<^verbatim>\<open>allocate\<close> on a pair that is already recorded adds the amount to the
  recorded one. The guard of the loop tests the reverse pair: a candidate is skipped, with
  nothing changed, when its own code is recorded as a school allocated to the center that
  has the school's code (a mutual allocation).
\<close>

theorem C2_additive_record_and_guard:
  "alloc_of (allocate sc cc m al) sc cc
     = Some (case alloc_of al sc cc of None \<Rightarrow> m | Some v \<Rightarrow> v + m)
   \<and> (is_allocated (cscode c) (scode s) (allocations L) \<longrightarrow>
        allot_step stretch pc centers s c (n, ac, L) = Inr (n, ac, L))"
  by (simp add: alloc_of_allocate allot_step_skip)

theorem C2_additive_record_and_guard_witness:
  "is_allocated (cscode (center_to_dict (ex_center ''A'' 100 ''27.70'') (Km 1)))
      (scode (ex_school ''S'' 50 ''27.69''))
      (allocations \<lparr>allocations = [(''A'', [(''S'', 7)])], remaining_cap = [(''A'', 100)]\<rparr>)
   \<and> alloc_of (allocate ''S'' ''A'' 5 [(''S'', [(''A'', 100)])]) ''S'' ''A''
       = Some (case alloc_of [(''S'', [(''A'', 100)])] ''S'' ''A'' of
                 None \<Rightarrow> 5 | Some v \<Rightarrow> v + 5)
   \<and> allot_step False 100 [center_to_dict (ex_center ''A'' 100 ''27.70'') (Km 1)]
        (ex_school ''S'' 50 ''27.69'') (center_to_dict (ex_center ''A'' 100 ''27.70'') (Km 1))
        (50, [], \<lparr>allocations = [(''A'', [(''S'', 7)])], remaining_cap = [(''A'', 100)]\<rparr>)
       = Inr (50, [], \<lparr>allocations = [(''A'', [(''S'', 7)])], remaining_cap = [(''A'', 100)]\<rparr>)"
  (is "?H \<and> ?C1 \<and> ?C2")
proof -
  have h: ?H by code_simp
  have "?C1 \<and> (?H \<longrightarrow> ?C2)" by (rule C2_additive_record_and_guard)
  with h show ?thesis by blast
qed

section \<open>Remaining capacity\<close>

text \<open>
  Claim C3 (remaining capacity is never decremented below zero, stretch included) fails on
  the code. A stretch call for 102 students on a center of capacity 100 with 100 places
  left: the stretched capacity is 102, the call allocates 102 and leaves \<open>-2\<close>.
\<close>

theorem C3_stretch_goes_negative:
  "allocate_to_centers [center_to_dict (ex_center ''A'' 100 ''27.70'') (Km 1)]
      (ex_school ''S'' 102 ''27.69'') 102
      \<lparr>allocations = [], remaining_cap = [(''A'', 100)]\<rparr> True
     = Inr (0, [(''A'', center_to_dict (ex_center ''A'' 100 ''27.70'') (Km 1))],
            \<lparr>allocations = [(''S'', [(''A'', 102)])], remaining_cap = [(''A'', - 2)]\<rparr>)"
  by code_simp

text \<open>
  Claim C3 as amended. A step of the loop leaves the remaining capacity of every center
  code unchanged, or decrements that of the candidate's code. In a non-stretch call the
  decremented value is at least \<open>0\<close>. In a stretch call it can be negative, but it is at
  least \<open>- floor(capacity * 0.02)\<close> when the capacity is between \<open>0\<close> and \<open>2 ^ 40\<close> and the
  remaining capacity is of magnitude below \<open>2 ^ 40\<close> (where the doubles of line 207 give
  the exact value).
\<close>

theorem C3_remaining_lower_bound:
  assumes "allot_step stretch pc centers s c (n, ac, L) = Inr (n', ac', L')"
      and "stretch \<longrightarrow> 0 \<le> capacity c \<and> capacity c < 2 ^ 40
             \<and> \<bar>remaining_of L (cscode c)\<bar> < 2 ^ 40"
  shows "map_of (remaining_cap L') k = map_of (remaining_cap L) k
         \<or> (\<exists>v amt. k = cscode c \<and> map_of (remaining_cap L) k = Some v
               \<and> map_of (remaining_cap L') k = Some (v - amt) \<and> 0 < amt
               \<and> (if stretch then - stretch_allowance (capacity c) else 0) \<le> v - amt)"
  using assms by (rule allot_step_remaining)

theorem C3_remaining_lower_bound_witness:
  "allot_step True 100 [center_to_dict (ex_center ''A'' 100 ''27.70'') (Km 1)]
      (ex_school ''S'' 102 ''27.69'') (center_to_dict (ex_center ''A'' 100 ''27.70'') (Km 1))
      (102, [], \<lparr>allocations = [], remaining_cap = [(''A'', 100)]\<rparr>)
     = Inr (0, [(''A'', center_to_dict (ex_center ''A'' 100 ''27.70'') (Km 1))],
            \<lparr>allocations = [(''S'', [(''A'', 102)])], remaining_cap = [(''A'', - 2)]\<rparr>)
   \<and> - stretch_allowance (capacity (center_to_dict (ex_center ''A'' 100 ''27.70'') (Km 1)))
       \<le> 100 - 102"
  (is "?H \<and> ?C")
proof -
  let ?a = "center_to_dict (ex_center ''A'' 100 ''27.70'') (Km 1)"
  let ?L = "\<lparr>allocations = [], remaining_cap = [(''A'', 100)]\<rparr>"
  let ?L' = "\<lparr>allocations = [(''S'', [(''A'', 102)])], remaining_cap = [(''A'', - 2)]\<rparr>"
  have h: ?H by code_simp
  have ca: "cscode ?a = ''A''" "capacity ?a = 100"
    by (simp_all add: center_to_dict_def ex_center_def)
  have mag: "True \<longrightarrow> 0 \<le> capacity ?a \<and> capacity ?a < 2 ^ 40
               \<and> \<bar>remaining_of ?L (cscode ?a)\<bar> < 2 ^ 40"
    by (simp add: ca remaining_of_def)
  from C3_remaining_lower_bound [OF h mag, of "''A''"]
  have "\<exists>v amt. map_of (remaining_cap ?L) ''A'' = Some v
          \<and> map_of (remaining_cap ?L') ''A'' = Some (v - amt)
          \<and> - stretch_allowance (capacity ?a) \<le> v - amt"
    by auto
  then have ?C by auto
  with h show ?thesis by blast
qed

text \<open>
  Beyond these magnitudes the bound does not hold: for a capacity of \<open>10 ^ 17 + 49\<close> with
  nothing left, the exact allowance is \<open>2000000000000000\<close>, the doubles give a stretched
  capacity of \<open>2000000000000001\<close>, and a stretch step for that many students leaves one
  place less than minus the allowance.
\<close>

lemma stretch_step_beyond_allowance:
  "allot_step True 100 [center_to_dict (ex_center ''A'' (10 ^ 17 + 49) ''27.70'') (Km 1)]
      (ex_school ''S'' 2000000000000001 ''27.69'')
      (center_to_dict (ex_center ''A'' (10 ^ 17 + 49) ''27.70'') (Km 1))
      (2000000000000001, [], \<lparr>allocations = [], remaining_cap = [(''A'', 0)]\<rparr>)
     = Inr (0, [(''A'', center_to_dict (ex_center ''A'' (10 ^ 17 + 49) ''27.70'') (Km 1))],
            \<lparr>allocations = [(''S'', [(''A'', 2000000000000001)])],
              remaining_cap = [(''A'', - 2000000000000001)]\<rparr>)
   \<and> stretch_allowance (10 ^ 17 + 49) = 2000000000000000"
  by code_simp

section \<open>Amounts recorded against a center\<close>

text \<open>
  Claim C4 (the amounts allocated against a center sum to at most its capacity, plus at
  most \<open>floor(capacity * STRETCH_CAPACITY_FACTOR)\<close>) fails on the code. One school of 105
  students that prefers center \<open>A\<close> (capacity 100) to center \<open>B\<close> (capacity 50), both
  within the preferred distance: \<open>A\<close> takes 100; the leftover of 5 is tested against the
  capacity of \<open>B\<close> and subtracted from it, but recorded against \<open>A\<close>, the first candidate.
  The run completes without a stretch call, records 105 against \<open>A\<close> and writes a row of
  105 students for it; capacity plus allowance is 102.
\<close>

theorem C4_recorded_exceeds_capacity:
  "allocate_to_centers
      [center_to_dict (ex_center ''A'' 100 ''27.70'') (Km 1),
       center_to_dict (ex_center ''B'' 50 ''27.68'') (Km 1)]
      (ex_school ''S2'' 105 ''27.69'') 105
      \<lparr>allocations = [], remaining_cap = [(''A'', 100), (''B'', 50)]\<rparr> False
     = Inr (0, [(''A'', center_to_dict (ex_center ''A'' 100 ''27.70'') (Km 1))],
            \<lparr>allocations = [(''S2'', [(''A'', 105)])],
              remaining_cap = [(''A'', 0), (''B'', 45)]\<rparr>)
   \<and> run ex_geo ex_prefs ex_rs [ex_school ''S2'' 105 ''27.69'']
        [ex_center ''A'' 100 ''27.70'', ex_center ''B'' 50 ''27.68'']
     = Inr \<lparr>led = \<lparr>allocations = [(''S2'', [(''A'', 105)])],
                    remaining_cap = [(''A'', 0), (''B'', 45)]\<rparr>,
             remaining = 0,
             rows = [(''S2'', ''school'', ''A'', ''center'', ''street'', 105, Km 1)],
             pos = 3\<rparr>
   \<and> allocated_to [(''S2'', [(''A'', 105)])] ''A'' = 105
   \<and> capacity (ex_center ''A'' 100 ''27.70'')
        + stretch_allowance (capacity (ex_center ''A'' 100 ''27.70'')) = 102"
  by code_simp

section \<open>Demand of a school\<close>

text \<open>
  Claim C5 (the amounts allocated for a school sum to at most its count, and the remainder,
  the count minus that sum, is exactly the shortfall added to the reported total) fails on
  the code for every school with a remainder. A school of 120 students next to one center
  of capacity 100: the normal pass records 100 and returns the remainder 20, which is the
  count minus the recorded sum; the main loop then makes the call that raises
  \<^verbatim>\<open>TypeError\<close>, so the statement that adds the remainder to \<^verbatim>\<open>remaining\<close> is never
  reached and no total is reported.
\<close>

theorem C5_shortfall_not_reported:
  "allocate_to_centers [center_to_dict (ex_center ''A'' 100 ''27.70'') (Km 1)]
      (ex_school ''S'' 120 ''27.69'') 120
      \<lparr>allocations = [], remaining_cap = [(''A'', 100)]\<rparr> False
     = Inr (20, [(''A'', center_to_dict (ex_center ''A'' 100 ''27.70'') (Km 1))],
            \<lparr>allocations = [(''S'', [(''A'', 100)])], remaining_cap = [(''A'', 0)]\<rparr>)
   \<and> school_total [(''S'', [(''A'', 100)])] ''S'' = 120 - 20
   \<and> run ex_geo [] ex_rs [ex_school ''S'' 120 ''27.69''] [ex_center ''A'' 100 ''27.70'']
     = Inl TypeError"
  by code_simp

section \<open>The fallback of candidate selection\<close>

text \<open>
  Claim C6 (for every school, when no center qualifies for the within-distance list,
  candidate selection returns the single nearest center, so every school has a candidate)
  fails on the code. For a school with an empty latitude the function returns before it
  looks at any center: the candidate list is empty.
\<close>

theorem C6_no_candidate_without_coordinates:
  "centers_within_distance ex_geo [] ex_rs 0 (ex_school ''S'' 5 [])
      [ex_center ''A'' 100 ''27.70''] PREF_DISTANCE_THRESHOLD = Inr ([], 0)"
  by code_simp

text \<open>
  Claim C6 as amended. For a school with a latitude and a longitude, when the distance of
  every center is a number (its coordinates convert, and the result is not NaN) and at
  least one center has another code: if no center qualifies for the within-distance list,
  candidate selection returns exactly one candidate, a center of another code whose
  distance is the least among the centers of another code, and draws no random number.
\<close>

theorem C6_nearest_fallback:
  assumes "lat s \<noteq> []" and "long s \<noteq> []"
      and "\<forall>c \<in> set centers. \<exists>d. dist_to geo s c = Some (Km d)"
      and "\<exists>c \<in> set centers. cscode c \<noteq> scode s"
      and "\<forall>c \<in> set centers. \<not> qualifies geo prefs s thr c"
  shows "\<exists>nc nd. nc \<in> set centers \<and> cscode nc \<noteq> scode s
           \<and> dist_to geo s nc = Some (Km nd)
           \<and> (\<forall>c \<in> set centers. cscode c \<noteq> scode s \<longrightarrow>
                 (\<forall>d. dist_to geo s c = Some (Km d) \<longrightarrow> nd \<le> d))
           \<and> centers_within_distance geo prefs rs p s centers thr
                = Inr ([center_to_dict nc (Km nd)], p)"
proof -
  from scan_centers_fallback [OF assms(3) assms(5), of None "[]"] obtain nearest' where
    all: "scan_centers geo prefs s thr centers (map_option (apsnd Km) None) []
            = Inr (map_option (apsnd Km) nearest', [])
     \<and> (nearest' = None \<longleftrightarrow>
          (None :: (center \<times> rat) option) = None \<and> (\<forall>c \<in> set centers. cscode c = scode s))
     \<and> (\<forall>nc nd. nearest' = Some (nc, nd) \<longrightarrow>
           (None = Some (nc, nd)
              \<or> (nc \<in> set centers \<and> cscode nc \<noteq> scode s
                   \<and> dist_to geo s nc = Some (Km nd)))
           \<and> (\<forall>oc od. (None :: (center \<times> rat) option) = Some (oc, od) \<longrightarrow> nd \<le> od)
           \<and> (\<forall>c \<in> set centers. cscode c \<noteq> scode s \<longrightarrow>
                 (\<forall>d. dist_to geo s c = Some (Km d) \<longrightarrow> nd \<le> d)))" ..
  note sc = all [THEN conjunct1]
  note none0 = all [THEN conjunct2, THEN conjunct1]
  note some0 = all [THEN conjunct2, THEN conjunct2, rule_format]
  from none0 assms(4) have "nearest' \<noteq> None" by simp
  then obtain nc nd where n: "nearest' = Some (nc, nd)" by (cases nearest') auto
  from some0 [OF n] have
    mem: "nc \<in> set centers \<and> cscode nc \<noteq> scode s \<and> dist_to geo s nc = Some (Km nd)" and
    least: "\<forall>c \<in> set centers. cscode c \<noteq> scode s \<longrightarrow>
                 (\<forall>d. dist_to geo s c = Some (Km d) \<longrightarrow> nd \<le> d)"
    by simp_all
  from sc n have "scan_centers geo prefs s thr centers None [] = Inr (Some (nc, Km nd), [])"
    by simp
  with assms(1) assms(2) have
    res: "centers_within_distance geo prefs rs p s centers thr
            = Inr ([center_to_dict nc (Km nd)], p)"
    by (simp add: centers_within_distance_def)
  from mem least res show ?thesis by (intro exI [of _ nc] exI [of _ nd]) simp
qed

theorem C6_nearest_fallback_witness:
  "centers_within_distance ex_geo [] ex_rs 0 (ex_school ''S'' 5 ''27.69'')
      [ex_center ''A'' 100 ''27.80'', ex_center ''S'' 100 ''27.70'']
      PREF_DISTANCE_THRESHOLD
     = Inr ([center_to_dict (ex_center ''A'' 100 ''27.80'') (Km 9)], 0)"
proof -
  let ?s = "ex_school ''S'' 5 ''27.69''"
  let ?a = "ex_center ''A'' 100 ''27.80''"
  let ?o = "ex_center ''S'' 100 ''27.70''"
  have h1: "lat ?s \<noteq> []" by (simp add: ex_school_def)
  have h2: "long ?s \<noteq> []" by (simp add: ex_school_def)
  have da: "dist_to ex_geo ?s ?a = Some (Km 9)" by code_simp
  have do: "dist_to ex_geo ?s ?o = Some (Km 1)" by code_simp
  have ca: "cscode ?a \<noteq> scode ?s" by (simp add: ex_school_def ex_center_def)
  have co: "cscode ?o = scode ?s" by (simp add: ex_school_def ex_center_def)
  have h3: "\<forall>c \<in> set [?a, ?o]. \<exists>d. dist_to ex_geo ?s c = Some (Km d)" using da do by simp
  have h4: "\<exists>c \<in> set [?a, ?o]. cscode c \<noteq> scode ?s" using ca by simp
  have qa: "\<not> qualifies ex_geo [] ?s PREF_DISTANCE_THRESHOLD ?a"
    by (simp add: qualifies_def da PREF_DISTANCE_THRESHOLD_def)
  have qo: "\<not> qualifies ex_geo [] ?s PREF_DISTANCE_THRESHOLD ?o"
    by (simp add: qualifies_def co)
  have h5: "\<forall>c \<in> set [?a, ?o]. \<not> qualifies ex_geo [] ?s PREF_DISTANCE_THRESHOLD c"
    using qa qo by simp
  from C6_nearest_fallback [OF h1 h2 h3 h4 h5, of ex_rs 0] obtain nc nd where
    m: "nc \<in> set [?a, ?o]" and c: "cscode nc \<noteq> scode ?s" and
    d: "dist_to ex_geo ?s nc = Some (Km nd)" and
    r: "centers_within_distance ex_geo [] ex_rs 0 ?s [?a, ?o] PREF_DISTANCE_THRESHOLD
          = Inr ([center_to_dict nc (Km nd)], 0)"
    by blast
  from m c co have "nc = ?a" by auto
  with d da have "nd = 9" by simp
  with r \<open>nc = ?a\<close> show ?thesis by simp
qed

text \<open>
  With a NaN distance the code does not return the nearest center: the first center of
  another code is kept whatever follows, since no comparison with NaN holds.
\<close>

lemma nan_distance_kept_as_nearest:
  "centers_within_distance ex_geo [] ex_rs 0 (ex_school ''S'' 5 ''27.69'')
      [ex_center ''X'' 100 ''nan'', ex_center ''A'' 100 ''27.80'']
      PREF_DISTANCE_THRESHOLD
     = Inr ([center_to_dict (ex_center ''X'' 100 ''nan'') NaN], 0)"
  by code_simp

section \<open>The own code of a school\<close>

text \<open>
  Claim C8. Candidate selection never returns a center whose code is the school's own code,
  neither in the within-distance list nor as the nearest center; and in a run that
  completes, no amount is recorded for a pair whose center code equals its school code.
\<close>

theorem C8_self_exclusion:
  "(centers_within_distance geo prefs rs p s centers thr = Inr (cands, p') \<longrightarrow>
      (\<forall>c \<in> set cands. cscode c \<noteq> scode s))
   \<and> (run geo prefs rs schools centers = Inr st \<longrightarrow>
        alloc_of (allocations (led st)) k k = None)"
proof (intro conjI impI)
  assume "centers_within_distance geo prefs rs p s centers thr = Inr (cands, p')"
  then show "\<forall>c \<in> set cands. cscode c \<noteq> scode s"
    by (rule centers_within_distance_codes)
next
  assume "run geo prefs rs schools centers = Inr st"
  then have "main_loop geo prefs rs centers (sorted_schools rs schools)
               (initial_state schools centers) = Inr st"
    by (simp add: run_def)
  moreover have "alloc_of (allocations (led (initial_state schools centers))) k k = None"
    by (simp add: initial_state_def alloc_of_def)
  ultimately show "alloc_of (allocations (led st)) k k = None"
    by (rule main_loop_no_self)
qed

theorem C8_self_exclusion_witness:
  "centers_within_distance ex_geo [] ex_rs 1 (ex_school ''S'' 50 ''27.69'')
      [ex_center ''S'' 100 ''27.70'', ex_center ''A'' 100 ''27.71''] PREF_DISTANCE_THRESHOLD
     = Inr ([center_to_dict (ex_center ''A'' 100 ''27.71'') (Km (3 / 2))], 2)
   \<and> run ex_geo [] ex_rs [ex_school ''S'' 50 ''27.69'']
        [ex_center ''S'' 100 ''27.70'', ex_center ''A'' 100 ''27.71'']
     = Inr \<lparr>led = \<lparr>allocations = [(''S'', [(''A'', 50)])],
                    remaining_cap = [(''S'', 100), (''A'', 50)]\<rparr>,
             remaining = 0,
             rows = [(''S'', ''school'', ''A'', ''center'', ''street'', 50, Km (3 / 2))],
             pos = 2\<rparr>
   \<and> cscode (center_to_dict (ex_center ''A'' 100 ''27.71'') (Km (3 / 2)))
        \<noteq> scode (ex_school ''S'' 50 ''27.69'')
   \<and> alloc_of (allocations (led
         \<lparr>led = \<lparr>allocations = [(''S'', [(''A'', 50)])],
                 remaining_cap = [(''S'', 100), (''A'', 50)]\<rparr>,
           remaining = 0,
           rows = [(''S'', ''school'', ''A'', ''center'', ''street'', 50, Km (3 / 2))],
           pos = 2\<rparr>)) ''S'' ''S'' = None"
  (is "?H1 \<and> ?H2 \<and> ?C1 \<and> ?C2")
proof -
  have h1: ?H1 by code_simp
  have h2: ?H2 by code_simp
  have "(?H1 \<longrightarrow>
          (\<forall>c \<in> set [center_to_dict (ex_center ''A'' 100 ''27.71'') (Km (3 / 2))].
             cscode c \<noteq> scode (ex_school ''S'' 50 ''27.69'')))
        \<and> (?H2 \<longrightarrow> ?C2)"
    by (rule C8_self_exclusion)
  with h1 h2 have ?C1 ?C2 by simp_all
  with h1 h2 show ?thesis by blast
qed

section \<open>The two-pass policy of the main loop\<close>

text \<open>
  Claim C1 (a school whose normal pass leaves a remainder gets a second, stretched call, and
  unmet demand never halts the run) fails on the code. A school of 50 students next to one
  center of capacity 10: the normal pass allocates 10 and leaves 40; the main loop then calls
  \<^verbatim>\<open>allocate_to_centers(..., stretch_capacity=True)\<close>, a keyword the function does not
  have, and the run ends with \<^verbatim>\<open>TypeError\<close>.
\<close>

theorem C1_unmet_demand_halts_run:
  "allocate_to_centers [center_to_dict (ex_center ''A'' 10 ''27.70'') (Km 1)]
      (ex_school ''S'' 50 ''27.69'') 50
      \<lparr>allocations = [], remaining_cap = [(''A'', 10)]\<rparr> False
     = Inr (40, [(''A'', center_to_dict (ex_center ''A'' 10 ''27.70'') (Km 1))],
            \<lparr>allocations = [(''S'', [(''A'', 10)])], remaining_cap = [(''A'', 0)]\<rparr>)
   \<and> run ex_geo [] ex_rs [ex_school ''S'' 50 ''27.69''] [ex_center ''A'' 10 ''27.70'']
     = Inl TypeError"
  by code_simp

text \<open>
  Claim C9 (a school with an empty latitude or longitude gets an empty candidate list and is
  handled by the stretch-pass path, not as a hard error). Candidate selection returns the
  empty list for both thresholds, but the run of a school of 5 students without latitude
  ends with \<^verbatim>\<open>TypeError\<close>: the normal pass over no candidates leaves all 5, and the
  second call is the one that cannot be made.
\<close>

theorem C9_missing_coordinates_halt_run:
  "centers_within_distance ex_geo [] ex_rs 1 (ex_school ''S'' 5 [])
      [ex_center ''A'' 100 ''27.70''] PREF_DISTANCE_THRESHOLD = Inr ([], 1)
   \<and> centers_within_distance ex_geo [] ex_rs 1 (ex_school ''S'' 5 [])
      [ex_center ''A'' 100 ''27.70''] ABS_DISTANCE_THRESHOLD = Inr ([], 1)
   \<and> run ex_geo [] ex_rs [ex_school ''S'' 5 []] [ex_center ''A'' 100 ''27.70'']
     = Inl TypeError"
  by code_simp

section \<open>The redirect of a small leftover\<close>

text \<open>
  Claim C10. There is an input on which the redirect of a small leftover records an amount
  against the first candidate while that candidate is not in the returned
  \<^verbatim>\<open>allocated_centers\<close>, so that no output row shows the amount. School \<open>S1\<close> (100
  students) fills center \<open>A\<close>; school \<open>S2\<close> (105 students) then has the candidates \<open>A\<close>,
  \<open>B\<close>, \<open>C\<close> in this order: \<open>A\<close> is full, \<open>B\<close> takes 100, and the leftover of 5 is tested
  against \<open>C\<close> but recorded against \<open>A\<close>. The call returns only \<open>B\<close>, and the rows of
  \<open>S2\<close> show 100 students.
\<close>

theorem C10_redirect_missing_from_rows:
  "allocate_to_centers
      [center_to_dict (ex_center ''A'' 100 ''27.70'') (Km 1),
       center_to_dict (ex_center ''B'' 100 ''27.70'') (Km 1),
       center_to_dict (ex_center ''C'' 50 ''27.71'') (Km (3 / 2))]
      (ex_school ''S2'' 105 ''27.69'') 105
      \<lparr>allocations = [(''S1'', [(''A'', 100)])],
        remaining_cap = [(''A'', 0), (''B'', 100), (''C'', 50)]\<rparr> False
     = Inr (0, [(''B'', center_to_dict (ex_center ''B'' 100 ''27.70'') (Km 1))],
            \<lparr>allocations = [(''S1'', [(''A'', 100)]), (''S2'', [(''B'', 100), (''A'', 5)])],
              remaining_cap = [(''A'', 0), (''B'', 0), (''C'', 45)]\<rparr>)
   \<and> run ex_geo ex_prefs ex_rs
        [ex_school ''S1'' 100 ''27.69'', ex_school ''S2'' 105 ''27.69'']
        [ex_center ''A'' 100 ''27.70'', ex_center ''B'' 100 ''27.70'',
         ex_center ''C'' 50 ''27.71'']
     = Inr \<lparr>led = \<lparr>allocations =
                      [(''S1'', [(''A'', 100)]), (''S2'', [(''B'', 100), (''A'', 5)])],
                    remaining_cap = [(''A'', 0), (''B'', 0), (''C'', 45)]\<rparr>,
             remaining = 0,
             rows = [(''S1'', ''school'', ''A'', ''center'', ''street'', 100, Km 1),
                     (''S2'', ''school'', ''B'', ''center'', ''street'', 100, Km 1)],
             pos = 8\<rparr>"
  by code_simp

end
